theory Spec2Isabelle
  imports Main "HOL-Library.AList"
begin

section \<open>Data model of \<^verbatim>\<open>src/App.tsx\<close>\<close>

text \<open>
  The interfaces \<^verbatim>\<open>GifFrame\<close>, \<^verbatim>\<open>ColorCount\<close> and \<^verbatim>\<open>ColorMapping\<close> become records.
  A JavaScript \<^verbatim>\<open>number\<close> that holds a palette index, a colour component or a count is a
  natural number (the decoder produces bytes), an optional field is an \<open>option\<close>, and the
  \<^verbatim>\<open>Uint8ClampedArray\<close> patch is a list of numbers in which every store clamps to 255.
  The field \<^verbatim>\<open>top\<close> of \<^verbatim>\<open>dims\<close> is called \<open>top_dim\<close>, since \<open>top\<close> is a constant of HOL.
\<close>

type_synonym rgb = "nat \<times> nat \<times> nat"

record dims =
  width :: nat
  height :: nat
  top_dim :: nat
  left :: nat

record GifFrame =
  dims :: dims
  delay :: nat
  disposalType :: nat
  patch :: "nat list"
  pixels :: "nat list"
  transparentIndex :: "nat option"
  colorTable :: "rgb list"

record ColorCount =
  color :: string
  count :: nat
  rgb :: rgb

record ColorMapping =
  originalColor :: string
  originalRgb :: rgb
  newColor :: string
  newRgb :: rgb

text \<open>
  Reading a property of \<^verbatim>\<open>undefined\<close> throws a \<^verbatim>\<open>TypeError\<close>; it is the only exception
  the modelled functions can raise.
\<close>

datatype error = TypeError

section \<open>Colour keys\<close>

text \<open>
  The template literal \<^verbatim>\<open>`rgb(${rgb[0]},${rgb[1]},${rgb[2]})`\<close> prints each component in
  decimal (the components are integers far below \<^verbatim>\<open>1e21\<close>, where JavaScript switches to
  exponent notation).
\<close>

definition digitChar :: "nat \<Rightarrow> char" where
  "digitChar d = char_of (48 + d)"

fun numberToString :: "nat \<Rightarrow> string" where
  "numberToString n =
     (if n < 10 then [digitChar n]
      else numberToString (n div 10) @ [digitChar (n mod 10)])"

declare numberToString.simps [simp del]

definition colorKeyOf :: "rgb \<Rightarrow> string" where
  "colorKeyOf c =
     (case c of (r, g, b) \<Rightarrow>
        ''rgb('' @ numberToString r @ '','' @ numberToString g @ '','' @
        numberToString b @ '')'')"

section \<open>Iteration that an exception can leave\<close>

text \<open>
  \<^verbatim>\<open>xs.forEach(f)\<close> with a callback that updates local state: the state is threaded through
  the calls, and the first exception ends the iteration.
\<close>

fun forEach :: "('a \<Rightarrow> 's \<Rightarrow> 'e + 's) \<Rightarrow> 'a list \<Rightarrow> 's \<Rightarrow> 'e + 's" where
  "forEach f [] s = Inr s"
| "forEach f (x # xs) s =
     (case f x s of Inl e \<Rightarrow> Inl e | Inr s' \<Rightarrow> forEach f xs s')"

text \<open>\<^verbatim>\<open>xs.map(f)\<close> with a callback that may throw.\<close>

fun mapFrames :: "('a \<Rightarrow> error + 'b) \<Rightarrow> 'a list \<Rightarrow> error + 'b list" where
  "mapFrames f [] = Inr []"
| "mapFrames f (x # xs) =
     (case f x of
        Inl e \<Rightarrow> Inl e
      | Inr y \<Rightarrow> (case mapFrames f xs of Inl e \<Rightarrow> Inl e | Inr ys \<Rightarrow> Inr (y # ys)))"

section \<open>Palette extraction (\<^verbatim>\<open>extractColorPalette\<close>)\<close>

text \<open>
  The \<^verbatim>\<open>Map\<close> from colour key to count and triple is an association list in insertion
  order: \<^verbatim>\<open>set\<close> on a key that is present keeps its position, on a new key appends.
\<close>

type_synonym colorMap = "(string \<times> (nat \<times> rgb)) list"

definition countPixel :: "rgb list \<Rightarrow> nat option \<Rightarrow> nat \<Rightarrow> colorMap \<Rightarrow> error + colorMap" where
  "countPixel colorTable' transparentIndex' pixelIndex colorMap =
     (if Some pixelIndex = transparentIndex' then Inr colorMap
      else if pixelIndex < length colorTable' then
        (let rgb' = colorTable' ! pixelIndex;
             colorKey = colorKeyOf rgb'
         in case map_of colorMap colorKey of
              Some current \<Rightarrow> Inr (AList.update colorKey (fst current + 1, rgb') colorMap)
            | None \<Rightarrow> Inr (AList.update colorKey (1, rgb') colorMap))
      else Inl TypeError)"

definition countFrame :: "GifFrame \<Rightarrow> colorMap \<Rightarrow> error + colorMap" where
  "countFrame frame colorMap =
     forEach (countPixel (colorTable frame) (transparentIndex frame)) (pixels frame) colorMap"

definition toColorCount :: "string \<times> (nat \<times> rgb) \<Rightarrow> ColorCount" where
  "toColorCount e = \<lparr>color = fst e, count = fst (snd e), rgb = snd (snd e)\<rparr>"

text \<open>
  \<^verbatim>\<open>sort((a, b) => b.count - a.count)\<close> is a stable sort by descending count;
  \<open>sort_key\<close> is a stable insertion sort, here on the negated count.
\<close>

definition sortByCount :: "ColorCount list \<Rightarrow> ColorCount list" where
  "sortByCount cs = sort_key (\<lambda>c. - int (count c)) cs"

definition extractColorPalette :: "GifFrame list \<Rightarrow> error + ColorCount list" where
  "extractColorPalette gifFrames =
     (case forEach countFrame gifFrames [] of
        Inl e \<Rightarrow> Inl e
      | Inr colorMap \<Rightarrow> Inr (sortByCount (map toColorCount colorMap)))"

section \<open>Hexadecimal colours (\<^verbatim>\<open>hexToRgb\<close>, \<^verbatim>\<open>validateHexColor\<close>)\<close>

text \<open>The character class \<^verbatim>\<open>[a-f\d]\<close> under the flag \<^verbatim>\<open>i\<close>.\<close>

definition isHexDigit :: "char \<Rightarrow> bool" where
  "isHexDigit c =
     (let n = of_char c :: nat
      in (48 \<le> n \<and> n \<le> 57) \<or> (97 \<le> n \<and> n \<le> 102) \<or> (65 \<le> n \<and> n \<le> 70))"

definition hexDigitValue :: "char \<Rightarrow> nat" where
  "hexDigitValue c =
     (let n = of_char c :: nat
      in if 48 \<le> n \<and> n \<le> 57 then n - 48
         else if 97 \<le> n \<and> n \<le> 102 then n - 87
         else n - 55)"

text \<open>\<^verbatim>\<open>parseInt(s, 16)\<close> on a string of hexadecimal digits.\<close>

definition parseInt16 :: "string \<Rightarrow> nat" where
  "parseInt16 s = foldl (\<lambda>acc c. 16 * acc + hexDigitValue c) 0 s"

definition startsWithHash :: "string \<Rightarrow> bool" where
  "startsWithHash s = (case s of [] \<Rightarrow> False | c # _ \<Rightarrow> c = CHR ''#'')"

text \<open>
  The prefix \<^verbatim>\<open>^#?\<close> of the three regular expressions: what is left to match after an
  optional \<^verbatim>\<open>#\<close>. (A \<^verbatim>\<open>#\<close> that is not consumed can match no digit class, so the
  other alternative of \<^verbatim>\<open>#?\<close> never succeeds.)
\<close>

definition afterOptionalHash :: "string \<Rightarrow> string" where
  "afterOptionalHash s = (if startsWithHash s then tl s else s)"

text \<open>\<^verbatim>\<open>/^#?([a-f\d]{3}|[a-f\d]{6})$/i.test(color)\<close>\<close>

definition hexRegexTest :: "string \<Rightarrow> bool" where
  "hexRegexTest color' =
     (let body = afterOptionalHash color'
      in (length body = 3 \<or> length body = 6) \<and> list_all isHexDigit body)"

definition validateHexColor :: "string \<Rightarrow> string option" where
  "validateHexColor color' =
     (if \<not> hexRegexTest color' then None
      else
        let formattedColor = (if startsWithHash color' then color' else CHR ''#'' # color')
        in if length formattedColor = 4 then
             (let r = formattedColor ! 1; g = formattedColor ! 2; b = formattedColor ! 3
              in Some [CHR ''#'', r, r, g, g, b, b])
           else Some formattedColor)"

definition hexToRgb :: "string \<Rightarrow> rgb" where
  "hexToRgb hex =
     (let formattedHex = (if startsWithHash hex then hex else CHR ''#'' # hex);
          body = afterOptionalHash formattedHex
      in if length formattedHex = 4 then
           (if length body = 3 \<and> list_all isHexDigit body then
              (parseInt16 [body ! 0, body ! 0],
               parseInt16 [body ! 1, body ! 1],
               parseInt16 [body ! 2, body ! 2])
            else (0, 0, 0))
         else
           (if length body = 6 \<and> list_all isHexDigit body then
              (parseInt16 (take 2 body),
               parseInt16 (take 2 (drop 2 body)),
               parseInt16 (drop 4 body))
            else (0, 0, 0)))"

section \<open>Frame remapping (\<^verbatim>\<open>remapFramesColors\<close>)\<close>

text \<open>
  The callback of \<^verbatim>\<open>frame.pixels.forEach\<close>: the colour is read from the frame's own
  table, the slot is written in the copy. The read of \<^verbatim>\<open>originalRgb[0]\<close> throws when the
  table has no entry at the index.
\<close>

definition remapPixel ::
  "rgb list \<Rightarrow> nat option \<Rightarrow> ColorMapping list \<Rightarrow> nat \<Rightarrow> rgb list \<Rightarrow> error + rgb list" where
  "remapPixel colorTable' transparentIndex' mappings pixelIndex newColorTable =
     (if Some pixelIndex = transparentIndex' then Inr newColorTable
      else if pixelIndex < length colorTable' then
        (let originalRgb' = colorTable' ! pixelIndex;
             originalColorKey = colorKeyOf originalRgb'
         in case find (\<lambda>m. originalColor m = originalColorKey) mappings of
              Some mapping \<Rightarrow> Inr (newColorTable[pixelIndex := newRgb mapping])
            | None \<Rightarrow> Inr newColorTable)
      else Inl TypeError)"

definition remapColorTable :: "GifFrame \<Rightarrow> ColorMapping list \<Rightarrow> error + rgb list" where
  "remapColorTable frame mappings =
     forEach (remapPixel (colorTable frame) (transparentIndex frame) mappings)
       (pixels frame) (colorTable frame)"

text \<open>A store into the \<^verbatim>\<open>Uint8ClampedArray\<close>.\<close>

definition clampByte :: "nat \<Rightarrow> nat" where
  "clampByte v = min v 255"

text \<open>
  One round of the \<^verbatim>\<open>for\<close> loop that fills the patch: \<^verbatim>\<open>newColorTable[colorIndex] || [0, 0, 0]\<close>
  replaces a missing entry by black, and the alpha byte depends on the index alone.
\<close>

definition writePixel :: "nat list \<Rightarrow> nat option \<Rightarrow> rgb list \<Rightarrow> nat \<Rightarrow> nat list \<Rightarrow> nat list" where
  "writePixel pixels' transparentIndex' newColorTable i newPatch =
     (let pos = i * 4;
          colorIndex = pixels' ! i;
          color' = (if colorIndex < length newColorTable then newColorTable ! colorIndex
                    else (0, 0, 0))
      in case color' of (r, g, b) \<Rightarrow>
           newPatch
             [pos := clampByte r,
              pos + 1 := clampByte g,
              pos + 2 := clampByte b,
              pos + 3 := (if Some colorIndex \<noteq> transparentIndex' then 255 else 0)])"

definition regeneratePatch :: "nat list \<Rightarrow> nat option \<Rightarrow> rgb list \<Rightarrow> nat list" where
  "regeneratePatch pixels' transparentIndex' newColorTable =
     (let totalPixels = length pixels'
      in fold (writePixel pixels' transparentIndex' newColorTable) [0..<totalPixels]
           (replicate (totalPixels * 4) 0))"

definition remapFrame :: "ColorMapping list \<Rightarrow> GifFrame \<Rightarrow> error + GifFrame" where
  "remapFrame mappings frame =
     (case remapColorTable frame mappings of
        Inl e \<Rightarrow> Inl e
      | Inr newColorTable \<Rightarrow>
          Inr (frame\<lparr>colorTable := newColorTable,
                     patch := regeneratePatch (pixels frame) (transparentIndex frame)
                                newColorTable\<rparr>))"

definition remapFramesColors :: "GifFrame list \<Rightarrow> ColorMapping list \<Rightarrow> error + GifFrame list" where
  "remapFramesColors originalFrames mappings =
     (if length mappings = 0 then Inr originalFrames
      else mapFrames (remapFrame mappings) originalFrames)"

section \<open>The component state and its handlers\<close>

text \<open>
  The \<^verbatim>\<open>useState\<close> cells that the colour handlers read or write, with their initial
  values. \<^verbatim>\<open>console.warn\<close> is a log of the strings it was given. A handler reads the state
  of the render that created it and its setter calls give the next state; a setter call made
  before an exception leaves the handler still takes effect, so a handler returns the next
  state together with the exception it threw, if any.
\<close>

record AppState =
  frames :: "GifFrame list"
  error :: "string option"
  colorPalette :: "ColorCount list"
  colorMappings :: "ColorMapping list"
  selectedColor :: "ColorCount option"
  remappedFrames :: "GifFrame list"
  consoleWarn :: "string list"

definition initialState :: AppState where
  "initialState =
     \<lparr>frames = [], error = None, colorPalette = [], colorMappings = [],
      selectedColor = None, remappedFrames = [], consoleWarn = []\<rparr>"

text \<open>
  \<^verbatim>\<open>{...frame, colorTable: [...frame.colorTable], patch: new Uint8ClampedArray(frame.patch)}\<close>:
  as a value, the copy has the fields of the frame.
\<close>

definition copyFrame :: "GifFrame \<Rightarrow> GifFrame" where
  "copyFrame frame = frame\<lparr>colorTable := colorTable frame, patch := patch frame\<rparr>"

text \<open>
  \<^verbatim>\<open>parseGifFile\<close> from the decoder's result on: \<open>Inl\<close> when \<^verbatim>\<open>parseGIF\<close> or
  \<^verbatim>\<open>decompressFrames\<close> threw. The \<^verbatim>\<open>catch\<close> block also receives an exception of
  \<^verbatim>\<open>extractColorPalette\<close>, after the frames were stored.
\<close>

definition parseGifFile :: "error + GifFrame list \<Rightarrow> AppState \<Rightarrow> AppState" where
  "parseGifFile decoded st =
     (case decoded of
        Inl e \<Rightarrow> st\<lparr>error := Some ''Failed to parse GIF file''\<rparr>
      | Inr parsedFrames \<Rightarrow>
          (let st1 = st\<lparr>error := None, frames := parsedFrames, colorMappings := [],
                        selectedColor := None,
                        remappedFrames := map copyFrame parsedFrames\<rparr>
           in case extractColorPalette parsedFrames of
                Inr sortedColors \<Rightarrow> st1\<lparr>colorPalette := sortedColors\<rparr>
              | Inl e \<Rightarrow> st1\<lparr>error := Some ''Failed to parse GIF file''\<rparr>))"

definition handleColorSelect :: "ColorCount \<Rightarrow> AppState \<Rightarrow> AppState" where
  "handleColorSelect colorInfo st =
     (let st1 = st\<lparr>selectedColor := Some colorInfo\<rparr>
      in case find (\<lambda>mapping. originalColor mapping = color colorInfo) (colorMappings st) of
           Some existingMapping \<Rightarrow> st1
         | None \<Rightarrow>
             (let newMapping = \<lparr>originalColor = color colorInfo, originalRgb = rgb colorInfo,
                                newColor = color colorInfo, newRgb = rgb colorInfo\<rparr>
              in st1\<lparr>colorMappings := colorMappings st @ [newMapping]\<rparr>))"

definition updateColorMapping :: "string \<Rightarrow> AppState \<Rightarrow> error option \<times> AppState" where
  "updateColorMapping newColor' st =
     (case selectedColor st of
        None \<Rightarrow> (None, st)
      | Some selected \<Rightarrow>
          (case validateHexColor newColor' of
             None \<Rightarrow> (None, st\<lparr>consoleWarn := consoleWarn st @ [newColor']\<rparr>)
           | Some validatedColor \<Rightarrow>
               (let newRgb' = hexToRgb validatedColor;
                    updatedMappings =
                      map (\<lambda>mapping.
                             if originalColor mapping = color selected
                             then mapping\<lparr>newColor := validatedColor, newRgb := newRgb'\<rparr>
                             else mapping)
                        (colorMappings st);
                    st1 = st\<lparr>colorMappings := updatedMappings\<rparr>
                in if length (frames st) > 0 then
                     (case remapFramesColors (frames st) updatedMappings of
                        Inl e \<Rightarrow> (Some e, st1)
                      | Inr newRemappedFrames \<Rightarrow>
                          (None, st1\<lparr>remappedFrames := newRemappedFrames\<rparr>))
                   else (None, st1))))"

definition removeColorMapping :: "string \<Rightarrow> AppState \<Rightarrow> error option \<times> AppState" where
  "removeColorMapping originalColor' st =
     (let updatedMappings =
            filter (\<lambda>mapping. originalColor mapping \<noteq> originalColor') (colorMappings st);
          st1 = st\<lparr>colorMappings := updatedMappings\<rparr>;
          st2 = (case selectedColor st of
                   None \<Rightarrow> st1
                 | Some selected \<Rightarrow>
                     if color selected = originalColor' then st1\<lparr>selectedColor := None\<rparr>
                     else st1)
      in if length (frames st) > 0 then
           (case remapFramesColors (frames st) updatedMappings of
              Inl e \<Rightarrow> (Some e, st2)
            | Inr newRemappedFrames \<Rightarrow> (None, st2\<lparr>remappedFrames := newRemappedFrames\<rparr>))
         else (None, st2))"

text \<open>The \<^verbatim>\<open>onClick\<close> of the button \<^verbatim>\<open>Reset All\<close>.\<close>

definition resetAll :: "AppState \<Rightarrow> AppState" where
  "resetAll st = st\<lparr>colorMappings := [], remappedFrames := map copyFrame (frames st)\<rparr>"

text \<open>
  The events that reach these handlers, and a run of the component over a list of events:
  after a handler threw, the component goes on from the state the handler left.
\<close>

datatype event =
    LoadGif "error + GifFrame list"
  | SelectColor ColorCount
  | UpdateColor string
  | RemoveColor string
  | ResetAll

fun dispatch :: "event \<Rightarrow> AppState \<Rightarrow> AppState" where
  "dispatch (LoadGif decoded) st = parseGifFile decoded st"
| "dispatch (SelectColor colorInfo) st = handleColorSelect colorInfo st"
| "dispatch (UpdateColor newColor') st = snd (updateColorMapping newColor' st)"
| "dispatch (RemoveColor originalColor') st = snd (removeColorMapping originalColor' st)"
| "dispatch ResetAll st = resetAll st"

definition runEvents :: "event list \<Rightarrow> AppState \<Rightarrow> AppState" where
  "runEvents events st = fold dispatch events st"

section \<open>Auxiliary notions for the properties\<close>

text \<open>The four bytes that one round of the patch loop stores for a palette index.\<close>

definition pixelBytes :: "nat option \<Rightarrow> rgb list \<Rightarrow> nat \<Rightarrow> nat list" where
  "pixelBytes ti ct colorIndex =
     (let c = (if colorIndex < length ct then ct ! colorIndex else (0, 0, 0))
      in [clampByte (fst c), clampByte (fst (snd c)), clampByte (snd (snd c)),
          if Some colorIndex \<noteq> ti then 255 else 0])"

text \<open>
  Every pixel of the frame is the transparent index or has an entry in the colour table:
  the lookups of the two \<^verbatim>\<open>forEach\<close> callbacks are defined.
\<close>

definition lookupsDefined :: "GifFrame \<Rightarrow> bool" where
  "lookupsDefined frame =
     list_all (\<lambda>p. Some p = transparentIndex frame \<or> p < length (colorTable frame))
       (pixels frame)"

text \<open>The colour table that \<^verbatim>\<open>remapFramesColors\<close> computes for a frame, slot by slot.\<close>

definition remappedSlot :: "GifFrame \<Rightarrow> ColorMapping list \<Rightarrow> nat \<Rightarrow> rgb" where
  "remappedSlot frame mappings k =
     (if k \<in> set (pixels frame) \<and> Some k \<noteq> transparentIndex frame then
        (case find (\<lambda>m. originalColor m = colorKeyOf (colorTable frame ! k)) mappings of
           Some mapping \<Rightarrow> newRgb mapping
         | None \<Rightarrow> colorTable frame ! k)
      else colorTable frame ! k)"

definition remappedTable :: "GifFrame \<Rightarrow> ColorMapping list \<Rightarrow> rgb list" where
  "remappedTable frame mappings =
     map (remappedSlot frame mappings) [0..<length (colorTable frame)]"

definition remappedFrame :: "ColorMapping list \<Rightarrow> GifFrame \<Rightarrow> GifFrame" where
  "remappedFrame mappings frame =
     frame\<lparr>colorTable := remappedTable frame mappings,
           patch := concat (map (pixelBytes (transparentIndex frame)
                                  (remappedTable frame mappings)) (pixels frame))\<rparr>"

text \<open>
  The alpha bytes of a frame's patch follow its transparency: byte \<open>4 i + 3\<close> is 0 where
  pixel \<open>i\<close> is the transparent index and 255 elsewhere.
\<close>

definition alphaFollowsTransparency :: "GifFrame \<Rightarrow> bool" where
  "alphaFollowsTransparency frame =
     list_all (\<lambda>i. patch frame ! (4 * i + 3) =
                  (if Some (pixels frame ! i) = transparentIndex frame then 0 else 255))
       [0..<length (pixels frame)]"

text \<open>The frame and the mapping of the 2x2 scenario, used to exercise the theorems.\<close>

definition exampleFrame :: GifFrame where
  "exampleFrame =
     \<lparr>dims = \<lparr>width = 2, height = 2, top_dim = 0, left = 0\<rparr>, delay = 100, disposalType = 1,
      patch = [255, 0, 0, 255, 255, 0, 0, 255, 0, 255, 0, 255, 0, 255, 0, 255],
      pixels = [0, 0, 1, 1], transparentIndex = None,
      colorTable = [(255, 0, 0), (0, 255, 0)]\<rparr>"

definition exampleMapping :: ColorMapping where
  "exampleMapping =
     \<lparr>originalColor = ''rgb(255,0,0)'', originalRgb = (255, 0, 0),
      newColor = ''#0000ff'', newRgb = hexToRgb ''#0000ff''\<rparr>"

text \<open>
  The colour keys of all pixels that are not their frame's transparent index, frame by
  frame and pixel by pixel, each resolved through its own frame's colour table.
\<close>

definition visiblePixelKeys :: "GifFrame list \<Rightarrow> string list" where
  "visiblePixelKeys gifFrames =
     concat (map (\<lambda>frame.
                    map (\<lambda>p. colorKeyOf (colorTable frame ! p))
                      (filter (\<lambda>p. Some p \<noteq> transparentIndex frame) (pixels frame)))
               gifFrames)"

text \<open>The count that a colour map holds for a key (0 for an absent key).\<close>

definition countOf :: "colorMap \<Rightarrow> string \<Rightarrow> nat" where
  "countOf colorMap k = (case map_of colorMap k of Some e \<Rightarrow> fst e | None \<Rightarrow> 0)"

text \<open>
  What the colour map satisfies throughout the extraction: a key occurs once, its count
  is positive and its triple prints as the key.
\<close>

definition colorMapInv :: "colorMap \<Rightarrow> bool" where
  "colorMapInv colorMap =
     (distinct (map fst colorMap) \<and>
      list_all (\<lambda>e. 0 < fst (snd e) \<and> fst e = colorKeyOf (snd (snd e))) colorMap)"

text \<open>
  Two frames with different pixels; the second has a transparent index that lies outside
  its colour table, as a GIF may.
\<close>

definition exampleFrames :: "GifFrame list" where
  "exampleFrames =
     [exampleFrame, exampleFrame\<lparr>pixels := [1, 1, 1, 5], transparentIndex := Some 5\<rparr>]"

text \<open>
  A frame whose last pixel has palette index 2 while the colour table has two entries and
  no index is transparent.
\<close>

definition brokenFrame :: GifFrame where
  "brokenFrame =
     \<lparr>dims = \<lparr>width = 2, height = 2, top_dim = 0, left = 0\<rparr>, delay = 100, disposalType = 1,
      patch = [255, 0, 0, 255, 255, 0, 0, 255, 0, 255, 0, 255, 0, 0, 0, 255],
      pixels = [0, 0, 1, 2], transparentIndex = None,
      colorTable = [(255, 0, 0), (0, 255, 0)]\<rparr>"

text \<open>
  A hex colour in the words of the specification: an optional \<^verbatim>\<open>#\<close> followed by exactly 3
  or exactly 6 hexadecimal digits; and its normal form: \<^verbatim>\<open>#\<close> and six digits, each digit of
  a 3-digit form doubled, letters as they were written.
\<close>

definition hexDigitChars :: string where
  "hexDigitChars = ''0123456789abcdefABCDEF''"

definition hexFormDigits :: "string \<Rightarrow> string" where
  "hexFormDigits s = (case s of [] \<Rightarrow> [] | c # cs \<Rightarrow> if c = CHR ''#'' then cs else s)"

definition isHexForm :: "string \<Rightarrow> bool" where
  "isHexForm s =
     ((length (hexFormDigits s) = 3 \<or> length (hexFormDigits s) = 6) \<and>
      list_all (\<lambda>c. c \<in> set hexDigitChars) (hexFormDigits s))"

definition normalizedHex :: "string \<Rightarrow> string" where
  "normalizedHex s =
     CHR ''#'' # (if length (hexFormDigits s) = 3
                  then concat (map (\<lambda>c. [c, c]) (hexFormDigits s))
                  else hexFormDigits s)"

text \<open>The state after loading the 2x2 frame and clicking its red palette entry.\<close>

definition stateWithSelection :: AppState where
  "stateWithSelection =
     handleColorSelect \<lparr>color = ''rgb(255,0,0)'', count = 2, rgb = (255, 0, 0)\<rparr>
       (parseGifFile (Inr [exampleFrame]) initialState)"

definition redCount :: ColorCount where
  "redCount = \<lparr>color = ''rgb(255,0,0)'', count = 2, rgb = (255, 0, 0)\<rparr>"

definition greenCount :: ColorCount where
  "greenCount = \<lparr>color = ''rgb(0,255,0)'', count = 2, rgb = (0, 255, 0)\<rparr>"

definition exampleEvents :: "event list" where
  "exampleEvents =
     [LoadGif (Inr [exampleFrame]), SelectColor redCount, UpdateColor ''#0000ff'',
      SelectColor greenCount, SelectColor redCount, UpdateColor ''0f0'',
      RemoveColor ''rgb(0,255,0)'', SelectColor greenCount]"

text \<open>The number that a string of decimal digits denotes.\<close>

definition digitsValue :: "string \<Rightarrow> nat" where
  "digitsValue s = foldl (\<lambda>acc c. 10 * acc + (of_char c - 48)) 0 s"

text \<open>
  A frame as the decoder delivers it: every pixel is the transparent index or has an entry
  in the colour table, and the patch is the expansion of the pixels through the table.
\<close>

definition frameWellFormed :: "GifFrame \<Rightarrow> bool" where
  "frameWellFormed frame =
     (lookupsDefined frame \<and>
      patch frame = regeneratePatch (pixels frame) (transparentIndex frame) (colorTable frame))"

text \<open>The published remapped frames are the remapper's result on the originals and the table.\<close>

definition published :: "AppState \<Rightarrow> bool" where
  "published st =
     (remapFramesColors (frames st) (colorMappings st) = Inr (remappedFrames st))"

text \<open>
  The events the interface can deliver in a state: it offers the entries of the current
  palette for selection; the decoder is taken to deliver well-formed frames.
\<close>

definition eventAdmissible :: "AppState \<Rightarrow> event \<Rightarrow> bool" where
  "eventAdmissible st e =
     (case e of
        LoadGif decoded \<Rightarrow>
          (case decoded of Inl err \<Rightarrow> True | Inr parsedFrames \<Rightarrow> list_all frameWellFormed parsedFrames)
      | SelectColor colorInfo \<Rightarrow> colorInfo \<in> set (colorPalette st)
      | _ \<Rightarrow> True)"

fun eventsAdmissible :: "AppState \<Rightarrow> event list \<Rightarrow> bool" where
  "eventsAdmissible st [] = True"
| "eventsAdmissible st (e # es) = (eventAdmissible st e \<and> eventsAdmissible (dispatch e st) es)"

definition stateInv :: "AppState \<Rightarrow> bool" where
  "stateInv st =
     (list_all frameWellFormed (frames st) \<and>
      list_all (\<lambda>c. color c = colorKeyOf (rgb c)) (colorPalette st) \<and>
      published st)"

text \<open>
  A second animation is loaded whose last pixel has no colour-table entry: the extraction
  throws inside \<^verbatim>\<open>parseGifFile\<close>, the palette of the first animation stays on screen, and
  its red entry is clicked.
\<close>

definition brokenLoadEvents :: "event list" where
  "brokenLoadEvents =
     [LoadGif (Inr [exampleFrame]), LoadGif (Inr [brokenFrame]), SelectColor redCount]"

text \<open>
  A frame whose patch is not the expansion of its pixels (all bytes 0) is loaded and the
  red palette entry is clicked.
\<close>

definition blankPatchFrame :: GifFrame where
  "blankPatchFrame = exampleFrame\<lparr>patch := replicate 16 0\<rparr>"

definition blankPatchEvents :: "event list" where
  "blankPatchEvents = [LoadGif (Inr [blankPatchFrame]), SelectColor redCount]"

section \<open>Frames as objects in a store\<close>

text \<open>
  Whether two frames share a buffer cannot be read off their values. For that question the
  arrays and objects that \<^verbatim>\<open>remapFramesColors\<close> touches live in a store: an address is a
  position in the list of objects, \<^verbatim>\<open>new\<close>, an array literal and a spread append an object,
  an indexed assignment replaces the object at its address. A frame object holds its
  numbers and references to its \<^verbatim>\<open>dims\<close>, \<^verbatim>\<open>patch\<close>, \<^verbatim>\<open>pixels\<close> and \<^verbatim>\<open>colorTable\<close>; a colour
  table holds references to its triples. Of a mapping only \<^verbatim>\<open>originalColor\<close> and the
  reference \<^verbatim>\<open>newRgb\<close> are read.
\<close>

type_synonym addr = nat

record FrameObject =
  dimsAt :: addr
  delayOf :: nat
  disposalTypeOf :: nat
  patchAt :: addr
  pixelsAt :: addr
  transparentIndexOf :: "nat option"
  colorTableAt :: addr

datatype object =
    Dims dims
  | Triple rgb
  | Table "addr list"
  | Pixels "nat list"
  | Patch "nat list"
  | Frame FrameObject
  | FrameList "addr list"

type_synonym store = "object list"

record MappingObject =
  originalColorOf :: string
  newRgbAt :: addr

text \<open>
  Besides the exceptions of the program, a run on the store can find a reference that
  points nowhere or to an object of another kind. Typed code builds no such store.
\<close>

datatype failure = Thrown error | IllFormedStore

definition allocate :: "object \<Rightarrow> store \<Rightarrow> addr \<times> store" where
  "allocate ob s = (length s, s @ [ob])"

definition objectAt :: "store \<Rightarrow> addr \<Rightarrow> object option" where
  "objectAt s a = (if a < length s then Some (s ! a) else None)"

text \<open>
  An exception does not undo what was written before it: every function on the store
  returns the store it leaves behind, whether it completes or fails. A step of a loop
  returns the failure, if any, with the store; \<^verbatim>\<open>forEach\<close> over such steps stops at the
  first failure and returns the store of that moment.
\<close>

fun forEachStore ::
  "('a \<Rightarrow> store \<Rightarrow> failure option \<times> store) \<Rightarrow> 'a list \<Rightarrow> store \<Rightarrow> failure option \<times> store" where
  "forEachStore f [] s = (None, s)"
| "forEachStore f (x # xs) s =
     (case f x s of
        (Some e, s') \<Rightarrow> (Some e, s')
      | (None, s') \<Rightarrow> forEachStore f xs s')"

definition remapPixelStore ::
  "addr \<Rightarrow> nat option \<Rightarrow> MappingObject list \<Rightarrow> addr \<Rightarrow> nat \<Rightarrow> store \<Rightarrow>
     failure option \<times> store" where
  "remapPixelStore colorTable' transparentIndex' mappings newColorTable pixelIndex s =
     (if Some pixelIndex = transparentIndex' then (None, s)
      else
        case objectAt s colorTable' of
          Some (Table entries) \<Rightarrow>
            if pixelIndex < length entries then
              (case objectAt s (entries ! pixelIndex) of
                 Some (Triple originalRgb') \<Rightarrow>
                   (case find (\<lambda>m. originalColorOf m = colorKeyOf originalRgb') mappings of
                      Some mapping \<Rightarrow>
                        (case objectAt s newColorTable of
                           Some (Table newEntries) \<Rightarrow>
                             (None,
                              s[newColorTable :=
                                  Table (newEntries[pixelIndex := newRgbAt mapping])])
                         | _ \<Rightarrow> (Some IllFormedStore, s))
                    | None \<Rightarrow> (None, s))
               | _ \<Rightarrow> (Some IllFormedStore, s))
            else (Some (Thrown TypeError), s)
        | _ \<Rightarrow> (Some IllFormedStore, s))"

definition writePixelStore ::
  "addr \<Rightarrow> nat option \<Rightarrow> addr \<Rightarrow> addr \<Rightarrow> nat \<Rightarrow> store \<Rightarrow> failure option \<times> store" where
  "writePixelStore pixels' transparentIndex' newColorTable newPatch i s =
     (case (objectAt s pixels', objectAt s newColorTable, objectAt s newPatch) of
        (Some (Pixels px), Some (Table newEntries), Some (Patch bytes)) \<Rightarrow>
          (let pos = i * 4;
               colorIndex = px ! i;
               color' = (if colorIndex < length newEntries
                         then (case objectAt s (newEntries ! colorIndex) of
                                 Some (Triple c) \<Rightarrow> Inr c
                               | _ \<Rightarrow> Inl IllFormedStore)
                         else Inr (0, 0, 0))
           in case color' of
                Inl e \<Rightarrow> (Some e, s)
              | Inr (r, g, b) \<Rightarrow>
                  (None,
                   s[newPatch :=
                       Patch (bytes
                         [pos := clampByte r,
                          pos + 1 := clampByte g,
                          pos + 2 := clampByte b,
                          pos + 3 := (if Some colorIndex \<noteq> transparentIndex'
                                      then 255 else 0)])]))
      | _ \<Rightarrow> (Some IllFormedStore, s))"

definition remapFrameStore ::
  "MappingObject list \<Rightarrow> addr \<Rightarrow> store \<Rightarrow> (failure + addr) \<times> store" where
  "remapFrameStore mappings frame s =
     (case objectAt s frame of
        Some (Frame fr) \<Rightarrow>
          (case (objectAt s (colorTableAt fr), objectAt s (pixelsAt fr)) of
             (Some (Table entries), Some (Pixels px)) \<Rightarrow>
               (case allocate (Table entries) s of
                  (newColorTable, s1) \<Rightarrow>
                    (case forEachStore (remapPixelStore (colorTableAt fr)
                                          (transparentIndexOf fr) mappings newColorTable)
                            px s1 of
                       (Some e, s2) \<Rightarrow> (Inl e, s2)
                     | (None, s2) \<Rightarrow>
                         (let totalPixels = length px
                          in case allocate (Patch (replicate (totalPixels * 4) 0)) s2 of
                               (newPatch, s3) \<Rightarrow>
                                 (case forEachStore
                                         (writePixelStore (pixelsAt fr)
                                            (transparentIndexOf fr) newColorTable newPatch)
                                         [0..<totalPixels] s3 of
                                    (Some e, s4) \<Rightarrow> (Inl e, s4)
                                  | (None, s4) \<Rightarrow>
                                      (case allocate
                                              (Frame (fr\<lparr>colorTableAt := newColorTable,
                                                          patchAt := newPatch\<rparr>)) s4 of
                                         (newFrame, s5) \<Rightarrow> (Inr newFrame, s5))))))
           | _ \<Rightarrow> (Inl IllFormedStore, s))
      | _ \<Rightarrow> (Inl IllFormedStore, s))"

fun mapFramesStore ::
  "(addr \<Rightarrow> store \<Rightarrow> (failure + addr) \<times> store) \<Rightarrow> addr list \<Rightarrow> store \<Rightarrow>
     (failure + addr list) \<times> store" where
  "mapFramesStore f [] s = (Inr [], s)"
| "mapFramesStore f (a # as) s =
     (case f a s of
        (Inl e, s1) \<Rightarrow> (Inl e, s1)
      | (Inr b, s1) \<Rightarrow>
          (case mapFramesStore f as s1 of
             (Inl e, s2) \<Rightarrow> (Inl e, s2)
           | (Inr bs, s2) \<Rightarrow> (Inr (b # bs), s2)))"

definition remapFramesColorsStore ::
  "addr \<Rightarrow> MappingObject list \<Rightarrow> store \<Rightarrow> (failure + addr) \<times> store" where
  "remapFramesColorsStore originalFrames mappings s =
     (case objectAt s originalFrames of
        Some (FrameList frameRefs) \<Rightarrow>
          if length mappings = 0 then
            (case allocate (FrameList frameRefs) s of (copy, s') \<Rightarrow> (Inr copy, s'))
          else
            (case mapFramesStore (remapFrameStore mappings) frameRefs s of
               (Inl e, s') \<Rightarrow> (Inl e, s')
             | (Inr newRefs, s') \<Rightarrow>
                 (case allocate (FrameList newRefs) s' of
                    (newFrames, s'') \<Rightarrow> (Inr newFrames, s'')))
      | _ \<Rightarrow> (Inl IllFormedStore, s))"





text \<open>
  How a store represents values: the triples of a colour table, a frame, a frame list and
  the mappings. The remapper on values is the remapper on the store seen through these.
\<close>

definition tableReads :: "store \<Rightarrow> addr list \<Rightarrow> rgb list \<Rightarrow> bool" where
  "tableReads s entries table = list_all2 (\<lambda>e c. objectAt s e = Some (Triple c)) entries table"

definition frameReads :: "store \<Rightarrow> addr \<Rightarrow> GifFrame \<Rightarrow> bool" where
  "frameReads s a frame =
     (case objectAt s a of
        Some (Frame fr) \<Rightarrow>
          objectAt s (dimsAt fr) = Some (Dims (dims frame)) \<and>
          delayOf fr = delay frame \<and>
          disposalTypeOf fr = disposalType frame \<and>
          objectAt s (patchAt fr) = Some (Patch (patch frame)) \<and>
          objectAt s (pixelsAt fr) = Some (Pixels (pixels frame)) \<and>
          transparentIndexOf fr = transparentIndex frame \<and>
          (case objectAt s (colorTableAt fr) of
             Some (Table entries) \<Rightarrow> tableReads s entries (colorTable frame)
           | _ \<Rightarrow> False)
      | _ \<Rightarrow> False)"

definition framesRead :: "store \<Rightarrow> addr \<Rightarrow> GifFrame list \<Rightarrow> bool" where
  "framesRead s a gifFrames =
     (case objectAt s a of
        Some (FrameList refs) \<Rightarrow> list_all2 (frameReads s) refs gifFrames
      | _ \<Rightarrow> False)"

definition mappingsRead :: "store \<Rightarrow> MappingObject list \<Rightarrow> ColorMapping list \<Rightarrow> bool" where
  "mappingsRead s mappingObjects mappings =
     list_all2 (\<lambda>mo m. originalColorOf mo = originalColor m \<and>
                        objectAt s (newRgbAt mo) = Some (Triple (newRgb m)))
       mappingObjects mappings"

section \<open>The patch loop in closed form\<close>

lemma length_pixelBytes: "length (pixelBytes ti ct p) = 4"
  by (simp add: pixelBytes_def Let_def)

lemma length_concat_pixelBytes:
  "length (concat (map (pixelBytes ti ct) ps)) = 4 * length ps"
  by (induction ps) (simp_all add: length_pixelBytes)

lemma writePixel_block:
  assumes "length A = i * 4" "i < length px"
  shows "writePixel px ti ct i (A @ 0 # 0 # 0 # 0 # R) = A @ pixelBytes ti ct (px ! i) @ R"
  using assms
  by (simp add: writePixel_def pixelBytes_def Let_def list_update_append split: prod.splits)

lemma fold_writePixel:
  "k \<le> length px \<Longrightarrow>
   fold (writePixel px ti ct) [0..<k] (replicate (length px * 4) 0) =
   concat (map (pixelBytes ti ct) (take k px)) @ replicate ((length px - k) * 4) 0"
proof (induction k)
  case 0
  then show ?case by simp
next
  case (Suc k)
  then have k: "k < length px" by simp
  have rep: "replicate ((length px - k) * 4) (0::nat) =
        0 # 0 # 0 # 0 # replicate ((length px - Suc k) * 4) 0"
  proof -
    from k obtain m where m: "length px - k = Suc m" by (cases "length px - k") auto
    then have "length px - Suc k = m" by simp
    have "replicate (4 + m * 4) (0::nat) = replicate 4 0 @ replicate (m * 4) 0"
      by (simp only: replicate_add)
    moreover have "replicate 4 (0::nat) = [0, 0, 0, 0]"
      by (simp add: numeral_eq_Suc)
    ultimately show ?thesis using m \<open>length px - Suc k = m\<close> by simp
  qed
  have len: "length (concat (map (pixelBytes ti ct) (take k px))) = k * 4"
    using k by (simp add: length_concat_pixelBytes)
  have tk: "take (Suc k) px = take k px @ [px ! k]"
    using k by (simp add: take_Suc_conv_app_nth)
  show ?case
    using Suc.IH k
    by (simp add: rep writePixel_block [OF len k] tk)
qed

lemma regeneratePatch_concat:
  "regeneratePatch px ti ct = concat (map (pixelBytes ti ct) px)"
  using fold_writePixel [of "length px" px ti ct]
  by (simp add: regeneratePatch_def Let_def)

lemma nth_concat_pixelBytes:
  "j < length ps \<Longrightarrow> k < 4 \<Longrightarrow>
   concat (map (pixelBytes ti ct) ps) ! (4 * j + k) = pixelBytes ti ct (ps ! j) ! k"
proof (induction ps arbitrary: j)
  case Nil
  then show ?case by simp
next
  case (Cons p ps)
  show ?case
  proof (cases j)
    case 0
    with Cons.prems show ?thesis by (simp add: nth_append length_pixelBytes)
  next
    case (Suc j')
    with Cons.prems have "j' < length ps" by simp
    from Cons.IH [OF this Cons.prems(2)] Suc show ?thesis
      by (simp add: nth_append length_pixelBytes)
  qed
qed


lemma forEach_remapPixel_error:
  "\<not> list_all (\<lambda>p. Some p = ti \<or> p < length ct) ps \<Longrightarrow>
   forEach (remapPixel ct ti ms) ps t = Inl TypeError"
proof (induction ps arbitrary: t)
  case Nil
  then show ?case by simp
next
  case (Cons p ps)
  show ?case
  proof (cases "Some p = ti \<or> p < length ct")
    case True
    with Cons.prems have "\<not> list_all (\<lambda>p. Some p = ti \<or> p < length ct) ps" by simp
    from Cons.IH [OF this] True show ?thesis
      by (auto simp: remapPixel_def Let_def split: option.splits)
  next
    case False
    then show ?thesis by (simp add: remapPixel_def)
  qed
qed

lemma forEach_remapPixel_ok:
  "list_all (\<lambda>p. Some p = ti \<or> p < length ct) ps \<Longrightarrow> length t = length ct \<Longrightarrow>
   \<exists>t'. forEach (remapPixel ct ti ms) ps t = Inr t' \<and> length t' = length ct \<and>
     (\<forall>k < length ct. t' ! k =
        (if k \<in> set ps \<and> Some k \<noteq> ti then
           (case find (\<lambda>m. originalColor m = colorKeyOf (ct ! k)) ms of
              Some mapping \<Rightarrow> newRgb mapping
            | None \<Rightarrow> t ! k)
         else t ! k))"
proof (induction ps arbitrary: t)
  case Nil
  then show ?case by simp
next
  case (Cons p ps)
  from Cons.prems have ok: "list_all (\<lambda>p. Some p = ti \<or> p < length ct) ps"
    and p: "Some p = ti \<or> p < length ct" by simp_all
  show ?case
  proof (cases "Some p = ti")
    case True
    then have step: "remapPixel ct ti ms p t = Inr t" by (simp add: remapPixel_def)
    from Cons.IH [OF ok Cons.prems(2)] obtain t' where
      t': "forEach (remapPixel ct ti ms) ps t = Inr t'" "length t' = length ct"
      "\<forall>k < length ct. t' ! k =
        (if k \<in> set ps \<and> Some k \<noteq> ti then
           (case find (\<lambda>m. originalColor m = colorKeyOf (ct ! k)) ms of
              Some mapping \<Rightarrow> newRgb mapping
            | None \<Rightarrow> t ! k)
         else t ! k)" by blast
    show ?thesis
      using t' True step by auto
  next
    case False
    with p have plt: "p < length ct" by simp
    show ?thesis
    proof (cases "find (\<lambda>m. originalColor m = colorKeyOf (ct ! p)) ms")
      case None
      then have step: "remapPixel ct ti ms p t = Inr t"
        using False plt by (simp add: remapPixel_def)
      from Cons.IH [OF ok Cons.prems(2)] obtain t' where
        t': "forEach (remapPixel ct ti ms) ps t = Inr t'" "length t' = length ct"
        "\<forall>k < length ct. t' ! k =
          (if k \<in> set ps \<and> Some k \<noteq> ti then
             (case find (\<lambda>m. originalColor m = colorKeyOf (ct ! k)) ms of
                Some mapping \<Rightarrow> newRgb mapping
              | None \<Rightarrow> t ! k)
           else t ! k)" by blast
      show ?thesis
        using t' None step by auto
    next
      case (Some m)
      then have step: "remapPixel ct ti ms p t = Inr (t[p := newRgb m])"
        using False plt by (simp add: remapPixel_def)
      have len: "length (t[p := newRgb m]) = length ct" using Cons.prems(2) by simp
      from Cons.IH [OF ok len] obtain t' where
        t': "forEach (remapPixel ct ti ms) ps (t[p := newRgb m]) = Inr t'" "length t' = length ct"
        "\<forall>k < length ct. t' ! k =
          (if k \<in> set ps \<and> Some k \<noteq> ti then
             (case find (\<lambda>m. originalColor m = colorKeyOf (ct ! k)) ms of
                Some mapping \<Rightarrow> newRgb mapping
              | None \<Rightarrow> t[p := newRgb m] ! k)
           else t[p := newRgb m] ! k)" by blast
      have "\<forall>k < length ct. t' ! k =
          (if k \<in> set (p # ps) \<and> Some k \<noteq> ti then
             (case find (\<lambda>m. originalColor m = colorKeyOf (ct ! k)) ms of
                Some mapping \<Rightarrow> newRgb mapping
              | None \<Rightarrow> t ! k)
           else t ! k)"
      proof (intro allI impI)
        fix k assume k: "k < length ct"
        show "t' ! k =
          (if k \<in> set (p # ps) \<and> Some k \<noteq> ti then
             (case find (\<lambda>m. originalColor m = colorKeyOf (ct ! k)) ms of
                Some mapping \<Rightarrow> newRgb mapping
              | None \<Rightarrow> t ! k)
           else t ! k)"
        proof (cases "k = p")
          case True
          with t'(3) k Some False Cons.prems(2) show ?thesis by simp
        next
          case False
          then have "t[p := newRgb m] ! k = t ! k" by simp
          with t'(3) k False show ?thesis by (auto split: option.splits)
        qed
      qed
      with t'(1,2) step show ?thesis by simp
    qed
  qed
qed

lemma remapColorTable_eq:
  "remapColorTable frame mappings =
     (if lookupsDefined frame then Inr (remappedTable frame mappings) else Inl TypeError)"
proof (cases "lookupsDefined frame")
  case False
  then show ?thesis
    by (simp add: remapColorTable_def lookupsDefined_def forEach_remapPixel_error)
next
  case True
  then have ok: "list_all (\<lambda>p. Some p = transparentIndex frame \<or> p < length (colorTable frame))
      (pixels frame)" by (simp add: lookupsDefined_def)
  from forEach_remapPixel_ok [OF ok refl, of mappings] obtain t' where
    t': "forEach (remapPixel (colorTable frame) (transparentIndex frame) mappings)
           (pixels frame) (colorTable frame) = Inr t'"
    "length t' = length (colorTable frame)"
    "\<forall>k < length (colorTable frame). t' ! k =
        (if k \<in> set (pixels frame) \<and> Some k \<noteq> transparentIndex frame then
           (case find (\<lambda>m. originalColor m = colorKeyOf (colorTable frame ! k)) mappings of
              Some mapping \<Rightarrow> newRgb mapping
            | None \<Rightarrow> colorTable frame ! k)
         else colorTable frame ! k)" by blast
  have "t' = remappedTable frame mappings"
    using t'(2,3) by (intro nth_equalityI) (simp_all add: remappedTable_def remappedSlot_def)
  with t'(1) True show ?thesis by (simp add: remapColorTable_def)
qed

lemma remapFrame_eq:
  "remapFrame mappings frame =
     (if lookupsDefined frame then Inr (remappedFrame mappings frame) else Inl TypeError)"
  by (simp add: remapFrame_def remapColorTable_eq remappedFrame_def regeneratePatch_concat)

lemma mapFrames_eq:
  "mapFrames (\<lambda>x. if ok x then Inr (h x) else Inl TypeError) xs =
     (if list_all ok xs then Inr (map h xs) else Inl TypeError)"
  by (induction xs) simp_all

lemma remapFramesColors_eq:
  "remapFramesColors originalFrames mappings =
     (if mappings = [] then Inr originalFrames
      else if list_all lookupsDefined originalFrames
           then Inr (map (remappedFrame mappings) originalFrames)
      else Inl TypeError)"
proof -
  have "remapFrame mappings = (\<lambda>x. if lookupsDefined x then Inr (remappedFrame mappings x) else Inl TypeError)"
    by (rule ext) (rule remapFrame_eq)
  then show ?thesis
    by (simp add: remapFramesColors_def mapFrames_eq)
qed

section \<open>Remapping: the concrete scenario, the empty list, what a frame keeps\<close>

lemma key_red: "colorKeyOf (255, 0, 0) = ''rgb(255,0,0)''"
  by code_simp

lemma key_green: "colorKeyOf (0, 255, 0) = ''rgb(0,255,0)''"
  by code_simp

lemma hex_blue: "hexToRgb ''#0000ff'' = (0, 0, 255)"
  by code_simp

lemma remap_example:
  "remapFramesColors [exampleFrame] [exampleMapping] =
     Inr [exampleFrame\<lparr>colorTable := [(0, 0, 255), (0, 255, 0)],
            patch := [0, 0, 255, 255, 0, 0, 255, 255, 0, 255, 0, 255, 0, 255, 0, 255]\<rparr>]"
  by code_simp

text \<open>
  C4. Remapping the 2x2 frame with colour table [[255,0,0],[0,255,0]], pixels [0,0,1,1] and
  no transparent index by the single mapping rgb(255,0,0) to #0000ff gives the patch
  [0,0,255,255, 0,0,255,255, 0,255,0,255, 0,255,0,255]; the key of each pixel is taken from
  the original table, and slot 0 of the new table holds the new colour.
\<close>

theorem remap_concrete_scenario:
  "remapFramesColors
     [\<lparr>dims = \<lparr>width = 2, height = 2, top_dim = t, left = l\<rparr>, delay = d,
       disposalType = dt, patch = p, pixels = [0, 0, 1, 1], transparentIndex = None,
       colorTable = [(255, 0, 0), (0, 255, 0)]\<rparr>]
     [\<lparr>originalColor = colorKeyOf (255, 0, 0), originalRgb = (255, 0, 0),
       newColor = ''#0000ff'', newRgb = hexToRgb ''#0000ff''\<rparr>] =
   Inr [\<lparr>dims = \<lparr>width = 2, height = 2, top_dim = t, left = l\<rparr>, delay = d,
         disposalType = dt,
         patch = [0, 0, 255, 255, 0, 0, 255, 255, 0, 255, 0, 255, 0, 255, 0, 255],
         pixels = [0, 0, 1, 1], transparentIndex = None,
         colorTable = [(0, 0, 255), (0, 255, 0)]\<rparr>]"
  by (simp add: remapFramesColors_eq lookupsDefined_def remappedFrame_def remappedTable_def
      remappedSlot_def pixelBytes_def clampByte_def key_red key_green hex_blue)

text \<open>
  C9. Remapping with the empty mapping list returns frames whose patches are those of the
  input frames (the frames themselves are returned).
\<close>

theorem remap_empty_mappings_same_patches:
  "\<exists>gs. remapFramesColors F [] = Inr gs \<and> gs = F \<and> map patch gs = map patch F"
  by (simp add: remapFramesColors_def)

lemma remap_returns_iff:
  "(\<exists>gs. remapFramesColors fs ms = Inr gs) \<longleftrightarrow> ms = [] \<or> list_all lookupsDefined fs"
  by (simp add: remapFramesColors_eq)

text \<open>
  C10. For a non-empty mapping list, \<^verbatim>\<open>remapFramesColors\<close> returns exactly when every
  lookup is defined, and then output frame \<open>i\<close> has the dims, delay, disposalType,
  transparentIndex and pixels of input frame \<open>i\<close>: it is the input frame with a new
  colorTable and a new patch.
\<close>

theorem remap_keeps_frame_metadata:
  assumes "mappings \<noteq> []"
  shows "((\<exists>gs. remapFramesColors originalFrames mappings = Inr gs) \<longleftrightarrow>
            list_all lookupsDefined originalFrames) \<and>
         (remapFramesColors originalFrames mappings = Inr gs \<longrightarrow>
            length gs = length originalFrames \<and>
            (\<forall>i < length originalFrames.
               dims (gs ! i) = dims (originalFrames ! i) \<and>
               delay (gs ! i) = delay (originalFrames ! i) \<and>
               disposalType (gs ! i) = disposalType (originalFrames ! i) \<and>
               transparentIndex (gs ! i) = transparentIndex (originalFrames ! i) \<and>
               pixels (gs ! i) = pixels (originalFrames ! i) \<and>
               gs ! i = (originalFrames ! i)\<lparr>colorTable := colorTable (gs ! i),
                                               patch := patch (gs ! i)\<rparr>))"
  using assms
  by (auto simp: remapFramesColors_eq remappedFrame_def split: if_splits)

text \<open>
  C6 (as amended). In every frame that \<^verbatim>\<open>remapFramesColors\<close> returns for a non-empty
  mapping list, the alpha byte at offset \<open>4 i + 3\<close> of the patch is 0 where pixel \<open>i\<close> is
  the frame's transparent index and 255 elsewhere: the patch is regenerated and nothing is
  asked of the input patch. For the empty mapping list the input frames come back as they
  are, no patch is regenerated, and the returned frames have this form if the input
  frames had it.
\<close>

theorem remap_alpha_follows_transparency:
  assumes "remapFramesColors originalFrames mappings = Inr gs"
    and "mappings = [] \<longrightarrow> list_all alphaFollowsTransparency originalFrames"
    and "g \<in> set gs" and "i < length (pixels g)"
  shows "patch g ! (4 * i + 3) = (if Some (pixels g ! i) = transparentIndex g then 0 else 255)"
proof (cases "mappings = []")
  case True
  with assms(1) have "gs = originalFrames" by (simp add: remapFramesColors_eq)
  with assms(2,3) True have "alphaFollowsTransparency g" by (simp add: list_all_iff)
  with assms(4) show ?thesis by (simp add: alphaFollowsTransparency_def list_all_iff)
next
  case False
  with assms(1) have "gs = map (remappedFrame mappings) originalFrames"
    by (simp add: remapFramesColors_eq split: if_splits)
  with assms(3) obtain f where g: "g = remappedFrame mappings f" by auto
  have px: "pixels g = pixels f" and ti: "transparentIndex g = transparentIndex f"
    by (simp_all add: g remappedFrame_def)
  have "patch g ! (4 * i + 3) =
      pixelBytes (transparentIndex f) (remappedTable f mappings) (pixels f ! i) ! 3"
    using assms(4) px nth_concat_pixelBytes [of i "pixels f" 3]
    by (simp add: g remappedFrame_def)
  then show ?thesis by (simp add: px ti pixelBytes_def Let_def)
qed

theorem remap_keeps_frame_metadata_witness:
  "[exampleMapping] \<noteq> [] \<and>
   list_all lookupsDefined [exampleFrame] \<and>
   (\<exists>gs. remapFramesColors [exampleFrame] [exampleMapping] = Inr [gs] \<and>
      dims gs = dims exampleFrame \<and> delay gs = delay exampleFrame \<and>
      disposalType gs = disposalType exampleFrame \<and>
      transparentIndex gs = transparentIndex exampleFrame \<and>
      pixels gs = pixels exampleFrame \<and>
      colorTable gs \<noteq> colorTable exampleFrame \<and> patch gs \<noteq> patch exampleFrame)"
  using remap_keeps_frame_metadata [of "[exampleMapping]" "[exampleFrame]"
      "[exampleFrame\<lparr>colorTable := [(0, 0, 255), (0, 255, 0)],
            patch := [0, 0, 255, 255, 0, 0, 255, 255, 0, 255, 0, 255, 0, 255, 0, 255]\<rparr>]"]
  by (simp add: remap_example) (simp add: exampleFrame_def)

theorem remap_alpha_follows_transparency_witness:
  "remapFramesColors [exampleFrame\<lparr>transparentIndex := Some 1\<rparr>] [exampleMapping] =
     Inr [exampleFrame\<lparr>transparentIndex := Some 1, colorTable := [(0, 0, 255), (0, 255, 0)],
            patch := [0, 0, 255, 255, 0, 0, 255, 255, 0, 255, 0, 0, 0, 255, 0, 0]\<rparr>] \<and>
   [exampleMapping] \<noteq> [] \<and>
   [0, 0, 255, 255, 0, 0, 255, 255, 0, 255, 0, 0, 0, 255, 0, 0] ! (4 * 2 + 3) = (0::nat) \<and>
   [0, 0, 255, 255, 0, 0, 255, 255, 0, 255, 0, 0, 0, 255, 0, 0] ! (4 * 1 + 3) = (255::nat) \<and>
   remapFramesColors
     [exampleFrame\<lparr>transparentIndex := Some 1,
        patch := [255, 0, 0, 255, 255, 0, 0, 255, 0, 255, 0, 0, 0, 255, 0, 0]\<rparr>] [] =
     Inr [exampleFrame\<lparr>transparentIndex := Some 1,
            patch := [255, 0, 0, 255, 255, 0, 0, 255, 0, 255, 0, 0, 0, 255, 0, 0]\<rparr>] \<and>
   list_all alphaFollowsTransparency
     [exampleFrame\<lparr>transparentIndex := Some 1,
        patch := [255, 0, 0, 255, 255, 0, 0, 255, 0, 255, 0, 0, 0, 255, 0, 0]\<rparr>] \<and>
   [255, 0, 0, 255, 255, 0, 0, 255, 0, 255, 0, 0, 0, 255, 0, 0] ! (4 * 3 + 3) = (0::nat) \<and>
   [255, 0, 0, 255, 255, 0, 0, 255, 0, 255, 0, 0, 0, 255, 0, 0] ! (4 * 0 + 3) = (255::nat)"
proof -
  let ?f = "exampleFrame\<lparr>transparentIndex := Some 1\<rparr>"
  let ?g = "exampleFrame\<lparr>transparentIndex := Some 1, colorTable := [(0, 0, 255), (0, 255, 0)],
            patch := [0, 0, 255, 255, 0, 0, 255, 255, 0, 255, 0, 0, 0, 255, 0, 0]\<rparr>"
  let ?e = "exampleFrame\<lparr>transparentIndex := Some 1,
        patch := [255, 0, 0, 255, 255, 0, 0, 255, 0, 255, 0, 0, 0, 255, 0, 0]\<rparr>"
  have r: "remapFramesColors [?f] [exampleMapping] = Inr [?g]"
    by code_simp
  have h: "[exampleMapping] = [] \<longrightarrow> list_all alphaFollowsTransparency [?f]" by simp
  have re: "remapFramesColors [?e] [] = Inr [?e]"
    by code_simp
  have a: "list_all alphaFollowsTransparency [?e]"
    by code_simp
  then have he: "[] = ([]::ColorMapping list) \<longrightarrow> list_all alphaFollowsTransparency [?e]"
    by simp
  have "patch ?g ! (4 * 2 + 3) = (if Some (pixels ?g ! 2) = transparentIndex ?g then 0 else 255)"
    by (rule remap_alpha_follows_transparency [OF r h]) (simp_all add: exampleFrame_def)
  moreover
  have "patch ?g ! (4 * 1 + 3) = (if Some (pixels ?g ! 1) = transparentIndex ?g then 0 else 255)"
    by (rule remap_alpha_follows_transparency [OF r h]) (simp_all add: exampleFrame_def)
  moreover
  have "patch ?e ! (4 * 3 + 3) = (if Some (pixels ?e ! 3) = transparentIndex ?e then 0 else 255)"
    by (rule remap_alpha_follows_transparency [OF re he]) (simp_all add: exampleFrame_def)
  moreover
  have "patch ?e ! (4 * 0 + 3) = (if Some (pixels ?e ! 0) = transparentIndex ?e then 0 else 255)"
    by (rule remap_alpha_follows_transparency [OF re he]) (simp_all add: exampleFrame_def)
  ultimately show ?thesis using r re a by (simp add: exampleFrame_def)
qed

theorem remap_alpha_not_regenerated_counterexample:
  "remapFramesColors [exampleFrame\<lparr>transparentIndex := Some 1\<rparr>] [] =
     Inr [exampleFrame\<lparr>transparentIndex := Some 1\<rparr>] \<and>
   pixels (exampleFrame\<lparr>transparentIndex := Some 1\<rparr>) ! 2 = 1 \<and>
   transparentIndex (exampleFrame\<lparr>transparentIndex := Some 1\<rparr>) = Some 1 \<and>
   patch (exampleFrame\<lparr>transparentIndex := Some 1\<rparr>) ! (4 * 2 + 3) = 255"
  by code_simp

section \<open>Palette extraction in closed form\<close>

lemma colorMapInv_map_of:
  "colorMapInv cm \<Longrightarrow> map_of cm k = Some e \<Longrightarrow> 0 < fst e \<and> k = colorKeyOf (snd e)"
  by (auto simp: colorMapInv_def list_all_iff dest!: map_of_SomeD)

lemma set_update_subset: "set (AList.update k v al) \<subseteq> insert (k, v) (set al)"
  by (induction al) auto

lemma colorMapInv_update:
  assumes "colorMapInv cm" "0 < n" "k = colorKeyOf c"
  shows "colorMapInv (AList.update k (n, c) cm)"
proof -
  have "distinct (map fst (AList.update k (n, c) cm))"
    using assms(1) by (simp add: colorMapInv_def distinct_update)
  moreover have "\<forall>e \<in> set (AList.update k (n, c) cm). 0 < fst (snd e) \<and> fst e = colorKeyOf (snd (snd e))"
    using assms set_update_subset [of k "(n, c)" cm]
    by (auto simp: colorMapInv_def list_all_iff)
  ultimately show ?thesis by (simp add: colorMapInv_def list_all_iff)
qed

lemma countOf_update:
  "countOf (AList.update k v cm) k' = (if k' = k then fst v else countOf cm k')"
  by (simp add: countOf_def update_conv')

lemma countPixel_visible:
  assumes "Some p \<noteq> ti" "p < length ct" "colorMapInv cm"
  shows "\<exists>cm'. countPixel ct ti p cm = Inr cm' \<and> colorMapInv cm' \<and>
           (\<forall>k. countOf cm' k = countOf cm k + (if k = colorKeyOf (ct ! p) then 1 else 0))"
proof (cases "map_of cm (colorKeyOf (ct ! p))")
  case None
  then have "countPixel ct ti p cm = Inr (AList.update (colorKeyOf (ct ! p)) (1, ct ! p) cm)"
    using assms(1,2) by (simp add: countPixel_def Let_def)
  moreover have "colorMapInv (AList.update (colorKeyOf (ct ! p)) (1, ct ! p) cm)"
    using assms(3) by (intro colorMapInv_update) simp_all
  moreover have "countOf cm (colorKeyOf (ct ! p)) = 0"
    using None by (simp add: countOf_def)
  ultimately show ?thesis by (simp add: countOf_update)
next
  case (Some current)
  then have "countPixel ct ti p cm =
      Inr (AList.update (colorKeyOf (ct ! p)) (fst current + 1, ct ! p) cm)"
    using assms(1,2) by (simp add: countPixel_def Let_def)
  moreover have "colorMapInv (AList.update (colorKeyOf (ct ! p)) (fst current + 1, ct ! p) cm)"
    using assms(3) by (intro colorMapInv_update) simp_all
  moreover have "countOf cm (colorKeyOf (ct ! p)) = fst current"
    using Some by (simp add: countOf_def)
  ultimately show ?thesis by (simp add: countOf_update)
qed

lemma forEach_countPixel_error:
  "\<not> list_all (\<lambda>p. Some p = ti \<or> p < length ct) ps \<Longrightarrow>
   forEach (countPixel ct ti) ps cm = Inl TypeError"
proof (induction ps arbitrary: cm)
  case Nil
  then show ?case by simp
next
  case (Cons p ps)
  show ?case
  proof (cases "Some p = ti \<or> p < length ct")
    case True
    with Cons.prems have "\<not> list_all (\<lambda>p. Some p = ti \<or> p < length ct) ps" by simp
    from Cons.IH [OF this] True show ?thesis
      by (auto simp: countPixel_def Let_def split: option.splits)
  next
    case False
    then show ?thesis by (simp add: countPixel_def)
  qed
qed

lemma forEach_countPixel_ok:
  "list_all (\<lambda>p. Some p = ti \<or> p < length ct) ps \<Longrightarrow> colorMapInv cm \<Longrightarrow>
   \<exists>cm'. forEach (countPixel ct ti) ps cm = Inr cm' \<and> colorMapInv cm' \<and>
     (\<forall>k. countOf cm' k = countOf cm k +
        count_list (map (\<lambda>p. colorKeyOf (ct ! p)) (filter (\<lambda>p. Some p \<noteq> ti) ps)) k)"
proof (induction ps arbitrary: cm)
  case Nil
  then show ?case by simp
next
  case (Cons p ps)
  from Cons.prems have ok: "list_all (\<lambda>p. Some p = ti \<or> p < length ct) ps"
    and p: "Some p = ti \<or> p < length ct" by simp_all
  show ?case
  proof (cases "Some p = ti")
    case True
    then have "countPixel ct ti p cm = Inr cm" by (simp add: countPixel_def)
    with Cons.IH [OF ok Cons.prems(2)] True show ?thesis by simp
  next
    case False
    with p have plt: "p < length ct" by simp
    from countPixel_visible [OF False plt Cons.prems(2)] obtain cm1 where
      cm1: "countPixel ct ti p cm = Inr cm1" "colorMapInv cm1"
      "\<forall>k. countOf cm1 k = countOf cm k + (if k = colorKeyOf (ct ! p) then 1 else 0)"
      by blast
    from Cons.IH [OF ok cm1(2)] obtain cm' where
      cm': "forEach (countPixel ct ti) ps cm1 = Inr cm'" "colorMapInv cm'"
      "\<forall>k. countOf cm' k = countOf cm1 k +
        count_list (map (\<lambda>p. colorKeyOf (ct ! p)) (filter (\<lambda>p. Some p \<noteq> ti) ps)) k"
      by blast
    show ?thesis
      using cm1(1,3) cm' False by auto
  qed
qed

lemma countFrame_error:
  "\<not> lookupsDefined frame \<Longrightarrow> countFrame frame cm = Inl TypeError"
  by (simp add: countFrame_def lookupsDefined_def forEach_countPixel_error)

lemma countFrame_ok:
  "lookupsDefined frame \<Longrightarrow> colorMapInv cm \<Longrightarrow>
   \<exists>cm'. countFrame frame cm = Inr cm' \<and> colorMapInv cm' \<and>
     (\<forall>k. countOf cm' k = countOf cm k + count_list (visiblePixelKeys [frame]) k)"
  using forEach_countPixel_ok [of "transparentIndex frame" "colorTable frame" "pixels frame" cm]
  by (simp add: countFrame_def lookupsDefined_def visiblePixelKeys_def)

lemma visiblePixelKeys_Cons:
  "visiblePixelKeys (f # fs) = visiblePixelKeys [f] @ visiblePixelKeys fs"
  by (simp add: visiblePixelKeys_def)

lemma forEach_countFrame_error:
  "\<not> list_all lookupsDefined fs \<Longrightarrow> colorMapInv cm \<Longrightarrow>
   forEach countFrame fs cm = Inl TypeError"
proof (induction fs arbitrary: cm)
  case Nil
  then show ?case by simp
next
  case (Cons f fs)
  show ?case
  proof (cases "lookupsDefined f")
    case False
    then show ?thesis by (simp add: countFrame_error)
  next
    case True
    from countFrame_ok [OF True Cons.prems(2)] obtain cm1 where
      cm1: "countFrame f cm = Inr cm1" "colorMapInv cm1" by blast
    from Cons.prems(1) True have "\<not> list_all lookupsDefined fs" by simp
    from Cons.IH [OF this cm1(2)] cm1(1) show ?thesis by simp
  qed
qed

lemma forEach_countFrame_ok:
  "list_all lookupsDefined fs \<Longrightarrow> colorMapInv cm \<Longrightarrow>
   \<exists>cm'. forEach countFrame fs cm = Inr cm' \<and> colorMapInv cm' \<and>
     (\<forall>k. countOf cm' k = countOf cm k + count_list (visiblePixelKeys fs) k)"
proof (induction fs arbitrary: cm)
  case Nil
  then show ?case by (simp add: visiblePixelKeys_def)
next
  case (Cons f fs)
  from Cons.prems have f: "lookupsDefined f" and fs: "list_all lookupsDefined fs" by simp_all
  from countFrame_ok [OF f Cons.prems(2)] obtain cm1 where
    cm1: "countFrame f cm = Inr cm1" "colorMapInv cm1"
    "\<forall>k. countOf cm1 k = countOf cm k + count_list (visiblePixelKeys [f]) k" by blast
  from Cons.IH [OF fs cm1(2)] obtain cm' where
    cm': "forEach countFrame fs cm1 = Inr cm'" "colorMapInv cm'"
    "\<forall>k. countOf cm' k = countOf cm1 k + count_list (visiblePixelKeys fs) k" by blast
  show ?case
    using cm1(1,3) cm' by (simp add: visiblePixelKeys_Cons [of f fs])
qed

lemma count_list_pos_iff: "0 < count_list xs x \<longleftrightarrow> x \<in> set xs"
  by (induction xs) auto

lemma distinct_map_sort_key:
  assumes "distinct (map g xs)"
  shows "distinct (map g (sort_key f xs))"
proof -
  have "card (set (map g (sort_key f xs))) = card (set (map g xs))" by simp
  also have "\<dots> = length (map g xs)" using assms by (rule distinct_card)
  also have "\<dots> = length (map g (sort_key f xs))" by simp
  finally show ?thesis by (rule card_distinct)
qed

lemma sorted_sortByCount: "sorted_wrt (\<lambda>a b. count b \<le> count a) (sortByCount cs)"
proof -
  have "sorted (map (\<lambda>c. - int (count c)) (sortByCount cs))"
    unfolding sortByCount_def by (rule sorted_sort_key)
  then show ?thesis by (simp add: sorted_map)
qed

lemma set_sortByCount: "set (sortByCount cs) = set cs"
  by (simp add: sortByCount_def)

lemma color_toColorCount: "color \<circ> toColorCount = fst"
  by (rule ext) (simp add: toColorCount_def)

lemma extractColorPalette_error:
  "\<not> list_all lookupsDefined gifFrames \<Longrightarrow> extractColorPalette gifFrames = Inl TypeError"
  by (simp add: extractColorPalette_def forEach_countFrame_error colorMapInv_def)

lemma extractColorPalette_ok:
  assumes "list_all lookupsDefined gifFrames"
  shows "\<exists>palette. extractColorPalette gifFrames = Inr palette \<and>
           distinct (map color palette) \<and>
           set (map color palette) = set (visiblePixelKeys gifFrames) \<and>
           (\<forall>c \<in> set palette. count c = count_list (visiblePixelKeys gifFrames) (color c) \<and>
                               color c = colorKeyOf (rgb c)) \<and>
           sorted_wrt (\<lambda>a b. count b \<le> count a) palette"
proof -
  have inv0: "colorMapInv []" by (simp add: colorMapInv_def)
  from forEach_countFrame_ok [OF assms inv0] obtain cm where
    cm: "forEach countFrame gifFrames [] = Inr cm" "colorMapInv cm"
    "\<forall>k. countOf cm k = count_list (visiblePixelKeys gifFrames) k"
    by (auto simp: countOf_def)
  let ?pal = "sortByCount (map toColorCount cm)"
  have ex: "extractColorPalette gifFrames = Inr ?pal"
    using cm(1) by (simp add: extractColorPalette_def)
  have dist: "distinct (map fst cm)" using cm(2) by (simp add: colorMapInv_def)
  have d: "distinct (map color ?pal)"
    unfolding sortByCount_def
    by (rule distinct_map_sort_key) (simp add: color_toColorCount dist)
  have entry: "0 < fst (snd e) \<and> fst e = colorKeyOf (snd (snd e)) \<and>
      countOf cm (fst e) = fst (snd e)" if "e \<in> set cm" for e
  proof -
    from that dist have "map_of cm (fst e) = Some (snd e)" by simp
    with colorMapInv_map_of [OF cm(2) this] show ?thesis by (simp add: countOf_def)
  qed
  have keys: "set (map color ?pal) = set (visiblePixelKeys gifFrames)"
  proof -
    have "fst ` set cm = {k. 0 < countOf cm k}"
    proof (intro set_eqI iffI)
      fix k assume "k \<in> fst ` set cm"
      then obtain e where "e \<in> set cm" "k = fst e" by auto
      with entry [of e] show "k \<in> {k. 0 < countOf cm k}" by auto
    next
      fix k assume "k \<in> {k. 0 < countOf cm k}"
      then obtain v where "map_of cm k = Some v"
        by (auto simp: countOf_def split: option.splits)
      then have "(k, v) \<in> set cm" by (rule map_of_SomeD)
      then show "k \<in> fst ` set cm" by force
    qed
    also have "\<dots> = set (visiblePixelKeys gifFrames)"
      using cm(3) by (simp add: count_list_pos_iff)
    finally show ?thesis
      by (simp add: set_sortByCount image_image toColorCount_def)
  qed
  have cnt: "\<forall>c \<in> set ?pal. count c = count_list (visiblePixelKeys gifFrames) (color c) \<and>
      color c = colorKeyOf (rgb c)"
  proof
    fix c assume "c \<in> set ?pal"
    then obtain e where e: "e \<in> set cm" "c = toColorCount e"
      by (auto simp: set_sortByCount)
    from entry [OF e(1)] e(2) cm(3) show
      "count c = count_list (visiblePixelKeys gifFrames) (color c) \<and> color c = colorKeyOf (rgb c)"
      by (auto simp: toColorCount_def)
  qed
  from ex d keys cnt sorted_sortByCount [of "map toColorCount cm"] show ?thesis by blast
qed

lemma lookups_exampleFrames: "list_all lookupsDefined exampleFrames"
  by code_simp

lemma extract_exampleFrames:
  "extractColorPalette exampleFrames =
     Inr [\<lparr>color = ''rgb(0,255,0)'', count = 5, rgb = (0, 255, 0)\<rparr>,
          \<lparr>color = ''rgb(255,0,0)'', count = 2, rgb = (255, 0, 0)\<rparr>]"
  by code_simp

text \<open>
  C5 (as amended). For every frame list in which each pixel is its frame's transparent
  index or has an entry in the frame's colour table, \<^verbatim>\<open>extractColorPalette\<close> returns a
  palette with exactly one entry per colour key of a non-transparent pixel (keys resolved
  through each frame's own table), each entry counting the non-transparent pixels of all
  frames that have its key, in descending order of count.
\<close>

theorem palette_counts_visible_colors:
  assumes "list_all lookupsDefined gifFrames"
  shows "\<exists>palette. extractColorPalette gifFrames = Inr palette \<and>
           distinct (map color palette) \<and>
           set (map color palette) = set (visiblePixelKeys gifFrames) \<and>
           (\<forall>c \<in> set palette. count c = count_list (visiblePixelKeys gifFrames) (color c)) \<and>
           sorted_wrt (\<lambda>a b. count b \<le> count a) palette"
  using extractColorPalette_ok [OF assms] by blast

theorem palette_counts_visible_colors_witness:
  "list_all lookupsDefined exampleFrames \<and>
   (\<exists>palette. extractColorPalette exampleFrames = Inr palette \<and>
      map color palette = [''rgb(0,255,0)'', ''rgb(255,0,0)''] \<and>
      map count palette = [5, 2] \<and>
      distinct (map color palette) \<and>
      set (map color palette) = set (visiblePixelKeys exampleFrames) \<and>
      (\<forall>c \<in> set palette. count c = count_list (visiblePixelKeys exampleFrames) (color c)) \<and>
      sorted_wrt (\<lambda>a b. count b \<le> count a) palette)"
  using palette_counts_visible_colors [OF lookups_exampleFrames] lookups_exampleFrames
  by (simp add: extract_exampleFrames)

theorem palette_extraction_throws_counterexample:
  "extractColorPalette [brokenFrame] = Inl TypeError"
  by code_simp

section \<open>Palette indices without a colour-table entry\<close>

lemma take_drop_concat_pixelBytes:
  "j < length ps \<Longrightarrow>
   take 4 (drop (4 * j) (concat (map (pixelBytes ti ct) ps))) = pixelBytes ti ct (ps ! j)"
proof (induction ps arbitrary: j)
  case Nil
  then show ?case by simp
next
  case (Cons p ps)
  show ?case
  proof (cases j)
    case 0
    then show ?thesis by (simp add: length_pixelBytes)
  next
    case (Suc j')
    with Cons.prems have "j' < length ps" by simp
    from Cons.IH [OF this] Suc show ?thesis by (simp add: length_pixelBytes)
  qed
qed

lemma pixelBytes_missing:
  "length ct \<le> p \<Longrightarrow> pixelBytes ti ct p = [0, 0, 0, if Some p = ti then 0 else 255]"
  by (simp add: pixelBytes_def clampByte_def)

lemma lookupsDefined_fails:
  assumes "f \<in> set fs" "i < length (pixels f)" "length (colorTable f) \<le> pixels f ! i"
    "Some (pixels f ! i) \<noteq> transparentIndex f"
  shows "\<not> list_all lookupsDefined fs"
proof
  assume "list_all lookupsDefined fs"
  with assms(1) have "lookupsDefined f" by (simp add: list_all_iff)
  moreover from assms(2) have "pixels f ! i \<in> set (pixels f)" by simp
  ultimately have "Some (pixels f ! i) = transparentIndex f \<or>
      pixels f ! i < length (colorTable f)"
    by (simp add: lookupsDefined_def list_all_iff)
  with assms(3,4) show False by simp
qed

text \<open>
  C1. On a frame list that holds a frame with a pixel whose palette index has no
  colour-table entry and is not the frame's transparent index, the operations do not all
  recover. \<^verbatim>\<open>extractColorPalette\<close> throws a TypeError, and so does \<^verbatim>\<open>remapFramesColors\<close> for
  every non-empty mapping list: both read \<^verbatim>\<open>colorTable[pixelIndex]\<close> and index the result
  without a guard. For the empty mapping list \<^verbatim>\<open>remapFramesColors\<close> returns the frames as
  they are. Only the loop that regenerates the patch guards the same lookup, and for that
  pixel it stores black with alpha 255, not alpha 0.
\<close>

theorem missing_entry_throws:
  assumes "f \<in> set gifFrames" and "i < length (pixels f)"
    and "length (colorTable f) \<le> pixels f ! i"
    and "Some (pixels f ! i) \<noteq> transparentIndex f"
  shows "extractColorPalette gifFrames = Inl TypeError \<and>
         remapFramesColors gifFrames mappings =
           (if mappings = [] then Inr gifFrames else Inl TypeError) \<and>
         take 4 (drop (4 * i)
           (regeneratePatch (pixels f) (transparentIndex f) (colorTable f))) =
           [0, 0, 0, 255]"
proof (intro conjI)
  note bad = lookupsDefined_fails [OF assms]
  from bad show "extractColorPalette gifFrames = Inl TypeError"
    by (rule extractColorPalette_error)
  from bad show "remapFramesColors gifFrames mappings =
      (if mappings = [] then Inr gifFrames else Inl TypeError)"
    by (simp add: remapFramesColors_eq)
  from assms(2,3,4) show "take 4 (drop (4 * i)
      (regeneratePatch (pixels f) (transparentIndex f) (colorTable f))) = [0, 0, 0, 255]"
    by (simp add: regeneratePatch_concat take_drop_concat_pixelBytes pixelBytes_missing)
qed

theorem missing_entry_throws_witness:
  "brokenFrame \<in> set [brokenFrame] \<and>
   (3::nat) < length (pixels brokenFrame) \<and>
   length (colorTable brokenFrame) \<le> pixels brokenFrame ! 3 \<and>
   Some (pixels brokenFrame ! 3) \<noteq> transparentIndex brokenFrame \<and>
   extractColorPalette [brokenFrame] = Inl TypeError \<and>
   remapFramesColors [brokenFrame] [exampleMapping] = Inl TypeError \<and>
   remapFramesColors [brokenFrame] [] = Inr [brokenFrame] \<and>
   take 4 (drop (4 * 3)
     (regeneratePatch (pixels brokenFrame) (transparentIndex brokenFrame)
        (colorTable brokenFrame))) = [0, 0, 0, 255]"
proof -
  have h: "brokenFrame \<in> set [brokenFrame]" "(3::nat) < length (pixels brokenFrame)"
    "length (colorTable brokenFrame) \<le> pixels brokenFrame ! 3"
    "Some (pixels brokenFrame ! 3) \<noteq> transparentIndex brokenFrame"
    by (simp_all add: brokenFrame_def)
  from missing_entry_throws [OF h, of "[exampleMapping]"]
    missing_entry_throws [OF h, of "[]"] h
  show ?thesis by simp
qed

section \<open>The mapping table\<close>

lemma isHexDigit_all: "\<forall>c::char. isHexDigit c = (c \<in> set hexDigitChars)"
  by code_simp

lemma afterOptionalHash_eq: "afterOptionalHash s = hexFormDigits s"
  by (cases s) (simp_all add: afterOptionalHash_def hexFormDigits_def startsWithHash_def)

lemma hexRegexTest_iff: "hexRegexTest s \<longleftrightarrow> isHexForm s"
  using isHexDigit_all
  by (simp add: hexRegexTest_def isHexForm_def afterOptionalHash_eq Let_def list_all_iff)

lemma length3E:
  assumes "length xs = 3"
  obtains a b c where "xs = [a, b, c]"
proof -
  from assms obtain a ys where 1: "xs = a # ys" "length ys = 2" by (cases xs) auto
  then obtain b zs where 2: "ys = b # zs" "length zs = 1" by (cases ys) auto
  then obtain c where "zs = [c]" by (cases zs) auto
  with 1 2 that show ?thesis by simp
qed

lemma validateHexColor_eq:
  "validateHexColor s = (if isHexForm s then Some (normalizedHex s) else None)"
proof (cases "isHexForm s")
  case False
  then show ?thesis by (simp add: validateHexColor_def hexRegexTest_iff)
next
  case True
  then have len: "length (hexFormDigits s) = 3 \<or> length (hexFormDigits s) = 6"
    by (simp add: isHexForm_def)
  have nohash: "CHR ''#'' \<notin> set (hexFormDigits s)"
  proof
    assume "CHR ''#'' \<in> set (hexFormDigits s)"
    with True have "CHR ''#'' \<in> set hexDigitChars" by (auto simp: isHexForm_def list_all_iff)
    then show False by (simp add: hexDigitChars_def)
  qed
  show ?thesis
  proof (cases "startsWithHash s")
    case True
    then obtain cs where s: "s = CHR ''#'' # cs"
      by (cases s) (auto simp: startsWithHash_def)
    then have d: "hexFormDigits s = cs" by (simp add: hexFormDigits_def)
    from len show ?thesis
    proof
      assume "length (hexFormDigits s) = 3"
      with d obtain a b c where "cs = [a, b, c]" by (auto elim: length3E)
      with \<open>isHexForm s\<close> s d True show ?thesis
        by (simp add: validateHexColor_def hexRegexTest_iff normalizedHex_def)
    next
      assume "length (hexFormDigits s) = 6"
      with \<open>isHexForm s\<close> s d True show ?thesis
        by (simp add: validateHexColor_def hexRegexTest_iff normalizedHex_def)
    qed
  next
    case False
    have d: "hexFormDigits s = s"
    proof (cases s)
      case Nil
      then show ?thesis by (simp add: hexFormDigits_def)
    next
      case (Cons c cs)
      with False show ?thesis by (simp add: hexFormDigits_def startsWithHash_def)
    qed
    from len show ?thesis
    proof
      assume "length (hexFormDigits s) = 3"
      with d obtain a b c where "s = [a, b, c]" by (auto elim: length3E)
      with \<open>isHexForm s\<close> d False show ?thesis
        by (simp add: validateHexColor_def hexRegexTest_iff normalizedHex_def)
    next
      assume "length (hexFormDigits s) = 6"
      with \<open>isHexForm s\<close> d False show ?thesis
        by (simp add: validateHexColor_def hexRegexTest_iff normalizedHex_def)
    qed
  qed
qed

lemma updateColorMapping_mappings:
  "colorMappings (snd (updateColorMapping newColor' st)) =
     (case selectedColor st of
        None \<Rightarrow> colorMappings st
      | Some selected \<Rightarrow>
          (case validateHexColor newColor' of
             None \<Rightarrow> colorMappings st
           | Some validatedColor \<Rightarrow>
               map (\<lambda>mapping.
                      if originalColor mapping = color selected
                      then mapping\<lparr>newColor := validatedColor,
                                   newRgb := hexToRgb validatedColor\<rparr>
                      else mapping)
                 (colorMappings st)))"
  by (simp add: updateColorMapping_def Let_def split: option.splits sum.splits)

lemma removeColorMapping_mappings:
  "colorMappings (snd (removeColorMapping originalColor' st)) =
     filter (\<lambda>mapping. originalColor mapping \<noteq> originalColor') (colorMappings st)"
  by (simp add: removeColorMapping_def Let_def split: option.splits sum.splits)

lemma handleColorSelect_mappings:
  "colorMappings (handleColorSelect colorInfo st) =
     (if \<exists>m \<in> set (colorMappings st). originalColor m = color colorInfo
      then colorMappings st
      else colorMappings st @
        [\<lparr>originalColor = color colorInfo, originalRgb = rgb colorInfo,
          newColor = color colorInfo, newRgb = rgb colorInfo\<rparr>])"
proof (cases "find (\<lambda>mapping. originalColor mapping = color colorInfo) (colorMappings st)")
  case None
  then have "\<not> (\<exists>m \<in> set (colorMappings st). originalColor m = color colorInfo)"
    by (simp add: find_None_iff)
  with None show ?thesis by (simp add: handleColorSelect_def Let_def)
next
  case (Some m)
  then have "\<exists>m \<in> set (colorMappings st). originalColor m = color colorInfo"
    by (auto simp: find_Some_iff)
  with Some show ?thesis by (simp add: handleColorSelect_def Let_def)
qed

lemma parseGifFile_mappings:
  "colorMappings (parseGifFile decoded st) =
     (case decoded of Inl e \<Rightarrow> colorMappings st | Inr parsedFrames \<Rightarrow> [])"
  by (simp add: parseGifFile_def Let_def split: sum.splits)

lemma dispatch_distinct:
  assumes "distinct (map originalColor (colorMappings st))"
  shows "distinct (map originalColor (colorMappings (dispatch e st)))"
proof (cases e)
  case (LoadGif decoded)
  with assms show ?thesis by (simp add: parseGifFile_mappings split: sum.splits)
next
  case (SelectColor colorInfo)
  with assms show ?thesis by (auto simp: handleColorSelect_mappings)
next
  case (UpdateColor newColor')
  have "map originalColor (colorMappings (snd (updateColorMapping newColor' st))) =
      map originalColor (colorMappings st)"
    by (simp add: updateColorMapping_mappings o_def if_distrib split: option.splits cong: if_cong)
  with assms UpdateColor show ?thesis by simp
next
  case (RemoveColor originalColor')
  with assms show ?thesis by (simp add: removeColorMapping_mappings distinct_map_filter)
next
  case ResetAll
  then show ?thesis by (simp add: resetAll_def)
qed

lemma runEvents_distinct:
  "distinct (map originalColor (colorMappings st)) \<Longrightarrow>
   distinct (map originalColor (colorMappings (runEvents events st)))"
  unfolding runEvents_def
  by (induction events arbitrary: st) (simp_all add: dispatch_distinct)

text \<open>
  C7. After any sequence of events (select, update and remove among them) that starts from
  an empty mapping table, no two entries of the table have the same originalColor; and a
  select of a colour that has an entry leaves the table as it is.
\<close>

theorem mapping_keys_unique:
  "(colorMappings st = [] \<longrightarrow>
      distinct (map originalColor (colorMappings (runEvents events st)))) \<and>
   ((\<exists>m \<in> set (colorMappings st'). originalColor m = color colorInfo) \<longrightarrow>
      colorMappings (handleColorSelect colorInfo st') = colorMappings st')"
  by (simp add: runEvents_distinct handleColorSelect_mappings)

lemma exampleEvents_keys:
  "map originalColor (colorMappings (runEvents exampleEvents initialState)) =
     [''rgb(255,0,0)'', ''rgb(0,255,0)'']"
  by code_simp

lemma stateWithSelection_mappings:
  "colorMappings stateWithSelection =
     [\<lparr>originalColor = ''rgb(255,0,0)'', originalRgb = (255, 0, 0),
       newColor = ''rgb(255,0,0)'', newRgb = (255, 0, 0)\<rparr>]"
  by code_simp

lemma stateWithSelection_selected: "selectedColor stateWithSelection = Some redCount"
  by code_simp

theorem mapping_keys_unique_witness:
  "colorMappings initialState = [] \<and>
   map originalColor (colorMappings (runEvents exampleEvents initialState)) =
     [''rgb(255,0,0)'', ''rgb(0,255,0)''] \<and>
   distinct (map originalColor (colorMappings (runEvents exampleEvents initialState))) \<and>
   (\<exists>m \<in> set (colorMappings stateWithSelection). originalColor m = color redCount) \<and>
   colorMappings (handleColorSelect redCount stateWithSelection) =
     colorMappings stateWithSelection"
proof -
  have e: "colorMappings initialState = []" by (simp add: initialState_def)
  from mapping_keys_unique [of initialState exampleEvents stateWithSelection redCount]
  show ?thesis
    by (simp add: e exampleEvents_keys stateWithSelection_mappings redCount_def)
qed

text \<open>
  C8. With a colour selected, \<^verbatim>\<open>updateColorMapping\<close> on a string that is not an optional
  \<^verbatim>\<open>#\<close> and exactly 3 or 6 hexadecimal digits returns without an exception, leaves the
  state (the mapping table in it) as it was and appends the string to the warnings; on a
  string of that form, the validated colour is its normal form and the table entry
  of the selected colour gets it as newColor (and its value as newRgb), every
  other entry staying as it was. \<^verbatim>\<open>validateHexColor("abc")\<close> is \<^verbatim>\<open>"#aabbcc"\<close> and
  \<^verbatim>\<open>validateHexColor("#1234")\<close> is invalid.
\<close>

theorem update_validates_hex:
  assumes "selectedColor st = Some selected"
  shows "(\<not> isHexForm newHex \<longrightarrow>
            validateHexColor newHex = None \<and>
            updateColorMapping newHex st =
              (None, st\<lparr>consoleWarn := consoleWarn st @ [newHex]\<rparr>)) \<and>
         (isHexForm newHex \<longrightarrow>
            validateHexColor newHex = Some (normalizedHex newHex) \<and>
            consoleWarn (snd (updateColorMapping newHex st)) = consoleWarn st \<and>
            colorMappings (snd (updateColorMapping newHex st)) =
              map (\<lambda>mapping.
                     if originalColor mapping = color selected
                     then mapping\<lparr>newColor := normalizedHex newHex,
                                  newRgb := hexToRgb (normalizedHex newHex)\<rparr>
                     else mapping)
                (colorMappings st)) \<and>
         validateHexColor ''abc'' = Some ''#aabbcc'' \<and>
         validateHexColor ''#1234'' = None"
proof (intro conjI impI)
  assume "\<not> isHexForm newHex"
  then show "validateHexColor newHex = None" by (simp add: validateHexColor_eq)
  with assms show "updateColorMapping newHex st =
      (None, st\<lparr>consoleWarn := consoleWarn st @ [newHex]\<rparr>)"
    by (simp add: updateColorMapping_def)
next
  assume h: "isHexForm newHex"
  then show v: "validateHexColor newHex = Some (normalizedHex newHex)"
    by (simp add: validateHexColor_eq)
  from assms v show "consoleWarn (snd (updateColorMapping newHex st)) = consoleWarn st"
    by (simp add: updateColorMapping_def Let_def split: sum.splits)
  from assms v show "colorMappings (snd (updateColorMapping newHex st)) =
      map (\<lambda>mapping.
             if originalColor mapping = color selected
             then mapping\<lparr>newColor := normalizedHex newHex,
                          newRgb := hexToRgb (normalizedHex newHex)\<rparr>
             else mapping)
        (colorMappings st)"
    by (simp add: updateColorMapping_mappings)
next
  show "validateHexColor ''abc'' = Some ''#aabbcc''" by code_simp
  show "validateHexColor ''#1234'' = None" by code_simp
qed

lemma hexForm_examples:
  "\<not> isHexForm ''#1234''" "isHexForm ''aBc''" "normalizedHex ''aBc'' = ''#aaBBcc''"
  "hexToRgb ''#aaBBcc'' = (170, 187, 204)"
  by code_simp+

theorem update_validates_hex_witness:
  "selectedColor stateWithSelection = Some redCount \<and>
   \<not> isHexForm ''#1234'' \<and>
   updateColorMapping ''#1234'' stateWithSelection =
     (None, stateWithSelection\<lparr>consoleWarn := [''#1234'']\<rparr>) \<and>
   isHexForm ''aBc'' \<and>
   colorMappings (snd (updateColorMapping ''aBc'' stateWithSelection)) =
     [\<lparr>originalColor = ''rgb(255,0,0)'', originalRgb = (255, 0, 0),
       newColor = ''#aaBBcc'', newRgb = (170, 187, 204)\<rparr>]"
proof -
  have w: "consoleWarn stateWithSelection = []" by code_simp
  from update_validates_hex [OF stateWithSelection_selected, of "''#1234''"]
    update_validates_hex [OF stateWithSelection_selected, of "''aBc''"]
  show ?thesis
    by (simp add: hexForm_examples stateWithSelection_selected stateWithSelection_mappings
        w redCount_def)
qed

section \<open>Colour keys identify colours\<close>

lemma of_char_digitChar: "d < 10 \<Longrightarrow> (of_char (digitChar d) :: nat) = 48 + d"
  by (simp add: digitChar_def)

lemma digitsValue_snoc: "digitsValue (s @ [c]) = 10 * digitsValue s + (of_char c - 48)"
  by (simp add: digitsValue_def)

lemma digitsValue_numberToString: "digitsValue (numberToString n) = n"
proof (induction n rule: numberToString.induct)
  case (1 n)
  show ?case
  proof (cases "n < 10")
    case True
    then show ?thesis
      by (simp add: numberToString.simps [of n] digitsValue_def of_char_digitChar)
  next
    case False
    have "n mod 10 < 10" by simp
    then have "(of_char (digitChar (n mod 10)) :: nat) - 48 = n mod 10"
      by (simp add: of_char_digitChar)
    with False "1.IH" show ?thesis
      by (simp add: numberToString.simps [of n] digitsValue_snoc)
  qed
qed

lemma numberToString_inj: "numberToString m = numberToString n \<Longrightarrow> m = n"
  by (metis digitsValue_numberToString)

lemma numberToString_chars:
  "c \<in> set (numberToString n) \<Longrightarrow> 48 \<le> (of_char c :: nat) \<and> (of_char c :: nat) \<le> 57"
proof (induction n rule: numberToString.induct)
  case (1 n)
  show ?case
  proof (cases "n < 10")
    case True
    with "1.prems" have "c = digitChar n" by (simp add: numberToString.simps [of n])
    with True show ?thesis by (simp add: of_char_digitChar)
  next
    case False
    with "1.prems" have "c \<in> set (numberToString (n div 10)) \<or> c = digitChar (n mod 10)"
      by (auto simp: numberToString.simps [of n])
    then show ?thesis
    proof
      assume "c \<in> set (numberToString (n div 10))"
      with "1.IH" False show ?thesis by simp
    next
      assume c: "c = digitChar (n mod 10)"
      have "n mod 10 < 10" by simp
      then show ?thesis unfolding c by (simp add: of_char_digitChar)
    qed
  qed
qed

lemma comma_not_in_numberToString: "CHR '','' \<notin> set (numberToString n)"
  using numberToString_chars [of "CHR '',''" n] by auto

lemma split_at_separator:
  "c \<notin> set xs \<Longrightarrow> c \<notin> set ys \<Longrightarrow> xs @ c # u = ys @ c # v \<Longrightarrow> xs = ys \<and> u = v"
proof (induction xs arbitrary: ys)
  case Nil
  then show ?case by (cases ys) auto
next
  case (Cons x xs)
  then show ?case by (cases ys) auto
qed

lemma colorKeyOf_inj: "colorKeyOf a = colorKeyOf b \<Longrightarrow> a = b"
proof -
  assume eq: "colorKeyOf a = colorKeyOf b"
  obtain r g b' where a: "a = (r, g, b')" by (cases a)
  obtain r' g' b'' where b: "b = (r', g', b'')" by (cases b)
  from eq have 1: "numberToString r @ CHR '','' # (numberToString g @ CHR '','' # numberToString b' @ '')'') =
      numberToString r' @ CHR '','' # (numberToString g' @ CHR '','' # numberToString b'' @ '')'')"
    by (simp add: a b colorKeyOf_def)
  from split_at_separator [OF comma_not_in_numberToString comma_not_in_numberToString 1]
  have r: "numberToString r = numberToString r'"
    and 2: "numberToString g @ CHR '','' # numberToString b' @ '')'' =
      numberToString g' @ CHR '','' # numberToString b'' @ '')''" by simp_all
  from split_at_separator [OF comma_not_in_numberToString comma_not_in_numberToString 2]
  have g: "numberToString g = numberToString g'"
    and 3: "numberToString b' = numberToString b''" by simp_all
  from r g 3 show ?thesis by (simp add: a b numberToString_inj)
qed

section \<open>The published frames follow the mapping table\<close>

lemma find_snoc:
  "find P (xs @ [x]) = (case find P xs of Some y \<Rightarrow> Some y | None \<Rightarrow> if P x then Some x else None)"
  by (induction xs) simp_all

lemma remappedSlot_self:
  assumes "color ci = colorKeyOf (rgb ci)"
  shows "remappedSlot f (ms @ [\<lparr>originalColor = color ci, originalRgb = rgb ci,
            newColor = color ci, newRgb = rgb ci\<rparr>]) k = remappedSlot f ms k"
proof -
  have "rgb ci = colorTable f ! k" if "color ci = colorKeyOf (colorTable f ! k)"
    using that assms colorKeyOf_inj by simp
  then show ?thesis
    by (auto simp: remappedSlot_def find_snoc split: option.splits)
qed

lemma remappedFrame_self:
  assumes "color ci = colorKeyOf (rgb ci)"
  shows "remappedFrame (ms @ [\<lparr>originalColor = color ci, originalRgb = rgb ci,
            newColor = color ci, newRgb = rgb ci\<rparr>]) f = remappedFrame ms f"
proof -
  have "remappedSlot f (ms @ [\<lparr>originalColor = color ci, originalRgb = rgb ci,
            newColor = color ci, newRgb = rgb ci\<rparr>]) = remappedSlot f ms"
    by (rule ext) (rule remappedSlot_self [OF assms])
  then show ?thesis by (simp add: remappedFrame_def remappedTable_def)
qed

lemma remappedTable_Nil: "remappedTable f [] = colorTable f"
proof -
  have "remappedSlot f [] = (\<lambda>k. colorTable f ! k)"
    by (rule ext) (simp add: remappedSlot_def)
  then show ?thesis by (simp add: remappedTable_def map_nth)
qed

lemma remappedFrame_Nil: "frameWellFormed f \<Longrightarrow> remappedFrame [] f = f"
  by (simp add: remappedFrame_def remappedTable_Nil frameWellFormed_def regeneratePatch_concat)

lemma map_remappedFrame_Nil: "list_all frameWellFormed fs \<Longrightarrow> map (remappedFrame []) fs = fs"
  by (induction fs) (simp_all add: remappedFrame_Nil)

lemma wellFormed_lookups: "list_all frameWellFormed fs \<Longrightarrow> list_all lookupsDefined fs"
  by (simp add: list_all_iff frameWellFormed_def)

lemma remap_wellFormed:
  "list_all frameWellFormed fs \<Longrightarrow>
   remapFramesColors fs ms = Inr (map (remappedFrame ms) fs)"
  by (simp add: remapFramesColors_eq wellFormed_lookups map_remappedFrame_Nil)

lemma map_copyFrame: "map copyFrame fs = fs"
  by (induction fs) (simp_all add: copyFrame_def)

lemma stateInv_published:
  assumes "stateInv st"
  shows "remappedFrames st = map (remappedFrame (colorMappings st)) (frames st)"
proof -
  from assms have wf: "list_all frameWellFormed (frames st)"
    and pub: "remapFramesColors (frames st) (colorMappings st) = Inr (remappedFrames st)"
    by (simp_all add: stateInv_def published_def)
  from pub remap_wellFormed [OF wf, of "colorMappings st"] show ?thesis by simp
qed

lemma stateInv_initial: "stateInv initialState"
  by (simp add: stateInv_def initialState_def published_def remapFramesColors_def)

lemma stateInv_parseGifFile:
  assumes "stateInv st" "eventAdmissible st (LoadGif decoded)"
  shows "stateInv (parseGifFile decoded st)"
proof (cases decoded)
  case (Inl e)
  with assms(1) show ?thesis
    by (simp add: parseGifFile_def stateInv_def published_def)
next
  case (Inr parsedFrames)
  with assms(2) have wf: "list_all frameWellFormed parsedFrames"
    by (simp add: eventAdmissible_def)
  from extractColorPalette_ok [OF wellFormed_lookups [OF wf]] obtain palette where
    p: "extractColorPalette parsedFrames = Inr palette"
    "\<forall>c \<in> set palette. color c = colorKeyOf (rgb c)" by blast
  with Inr wf show ?thesis
    by (simp add: parseGifFile_def stateInv_def published_def map_copyFrame
        remapFramesColors_def list_all_iff)
qed

lemma stateInv_handleColorSelect:
  assumes "stateInv st" "colorInfo \<in> set (colorPalette st)"
  shows "stateInv (handleColorSelect colorInfo st)"
proof -
  from assms have key: "color colorInfo = colorKeyOf (rgb colorInfo)"
    and wf: "list_all frameWellFormed (frames st)"
    by (simp_all add: stateInv_def list_all_iff)
  note pub = stateInv_published [OF assms(1)]
  have same: "frames (handleColorSelect colorInfo st) = frames st"
    "colorPalette (handleColorSelect colorInfo st) = colorPalette st"
    "remappedFrames (handleColorSelect colorInfo st) = remappedFrames st"
    by (simp_all add: handleColorSelect_def Let_def split: option.splits)
  have "map (remappedFrame (colorMappings (handleColorSelect colorInfo st))) (frames st) =
      map (remappedFrame (colorMappings st)) (frames st)"
    by (simp add: handleColorSelect_mappings remappedFrame_self [OF key])
  with assms(1) wf pub same show ?thesis
    by (simp add: stateInv_def published_def remap_wellFormed)
qed

lemma stateInv_updateColorMapping:
  assumes "stateInv st"
  shows "stateInv (snd (updateColorMapping newColor' st))"
proof -
  from assms have wf: "list_all frameWellFormed (frames st)"
    by (simp add: stateInv_def)
  note pub = stateInv_published [OF assms]
  have e: "frames st = [] \<Longrightarrow> remappedFrames st = []" using pub by simp
  show ?thesis
    using assms wf e
    by (auto simp: updateColorMapping_def Let_def stateInv_def published_def remap_wellFormed
        split: option.splits)
qed

lemma stateInv_removeColorMapping:
  assumes "stateInv st"
  shows "stateInv (snd (removeColorMapping originalColor' st))"
proof -
  from assms have wf: "list_all frameWellFormed (frames st)"
    by (simp add: stateInv_def)
  note pub = stateInv_published [OF assms]
  have e: "frames st = [] \<Longrightarrow> remappedFrames st = []" using pub by simp
  show ?thesis
    using assms wf e
    by (auto simp: removeColorMapping_def Let_def stateInv_def published_def remap_wellFormed
        split: option.splits)
qed

lemma stateInv_resetAll: "stateInv st \<Longrightarrow> stateInv (resetAll st)"
  by (simp add: resetAll_def stateInv_def published_def map_copyFrame remapFramesColors_def)

lemma stateInv_dispatch:
  "stateInv st \<Longrightarrow> eventAdmissible st e \<Longrightarrow> stateInv (dispatch e st)"
proof (cases e)
  case (LoadGif decoded)
  assume "stateInv st" "eventAdmissible st e"
  with LoadGif show ?thesis by (simp add: stateInv_parseGifFile)
next
  case (SelectColor colorInfo)
  assume "stateInv st" "eventAdmissible st e"
  with SelectColor show ?thesis by (simp add: stateInv_handleColorSelect eventAdmissible_def)
next
  case (UpdateColor newColor')
  assume "stateInv st"
  with UpdateColor show ?thesis by (simp add: stateInv_updateColorMapping)
next
  case (RemoveColor originalColor')
  assume "stateInv st"
  with RemoveColor show ?thesis by (simp add: stateInv_removeColorMapping)
next
  case ResetAll
  assume "stateInv st"
  with ResetAll show ?thesis by (simp add: stateInv_resetAll)
qed

lemma stateInv_runEvents:
  "stateInv st \<Longrightarrow> eventsAdmissible st events \<Longrightarrow> stateInv (runEvents events st)"
  unfolding runEvents_def
  by (induction events arbitrary: st) (simp_all add: stateInv_dispatch)

lemma exampleEvents_admissible: "eventsAdmissible initialState exampleEvents"
  by code_simp

lemma exampleEvents_remapped:
  "remappedFrames (runEvents exampleEvents initialState) =
     [exampleFrame\<lparr>colorTable := [(0, 255, 0), (0, 255, 0)],
        patch := [0, 255, 0, 255, 0, 255, 0, 255, 0, 255, 0, 255, 0, 255, 0, 255]\<rparr>]"
  by code_simp

text \<open>
  C3 (as amended). In every run from the initial state in which the decoder delivers
  well-formed frames (each pixel is the transparent index or has a colour-table entry, the
  patch is the expansion of the pixels) and the colours selected are entries of the palette
  on screen, the published remapped frames equal the result of \<^verbatim>\<open>remapFramesColors\<close> on the
  original frames and the current mapping table after every event. Update and remove
  recompute them from the originals, load and reset-all publish copies of the originals;
  select does not recompute: it leaves the published frames as they are.
\<close>

theorem published_follows_mapping_table:
  assumes "eventsAdmissible initialState events"
  shows "published (runEvents events initialState) \<and>
         remappedFrames (handleColorSelect colorInfo st) = remappedFrames st"
proof
  from stateInv_runEvents [OF stateInv_initial assms]
  show "published (runEvents events initialState)" by (simp add: stateInv_def)
  show "remappedFrames (handleColorSelect colorInfo st) = remappedFrames st"
    by (simp add: handleColorSelect_def Let_def split: option.splits)
qed

theorem published_follows_mapping_table_witness:
  "eventsAdmissible initialState exampleEvents \<and>
   published (runEvents exampleEvents initialState) \<and>
   remapFramesColors (frames (runEvents exampleEvents initialState))
     (colorMappings (runEvents exampleEvents initialState)) =
     Inr [exampleFrame\<lparr>colorTable := [(0, 255, 0), (0, 255, 0)],
            patch := [0, 255, 0, 255, 0, 255, 0, 255, 0, 255, 0, 255, 0, 255, 0, 255]\<rparr>]"
  using published_follows_mapping_table [OF exampleEvents_admissible]
    exampleEvents_admissible
  by (simp add: published_def exampleEvents_remapped)

theorem published_not_recomputed_counterexample:
  "colorMappings (runEvents brokenLoadEvents initialState) =
     [\<lparr>originalColor = ''rgb(255,0,0)'', originalRgb = (255, 0, 0),
       newColor = ''rgb(255,0,0)'', newRgb = (255, 0, 0)\<rparr>] \<and>
   remappedFrames (runEvents brokenLoadEvents initialState) = [brokenFrame] \<and>
   remapFramesColors (frames (runEvents brokenLoadEvents initialState))
     (colorMappings (runEvents brokenLoadEvents initialState)) = Inl TypeError \<and>
   \<not> published (runEvents brokenLoadEvents initialState) \<and>
   remappedFrames (runEvents blankPatchEvents initialState) = [blankPatchFrame] \<and>
   remapFramesColors (frames (runEvents blankPatchEvents initialState))
     (colorMappings (runEvents blankPatchEvents initialState)) = Inr [exampleFrame] \<and>
   \<not> published (runEvents blankPatchEvents initialState)"
  by code_simp

section \<open>What a remapped frame shares with its original\<close>

lemma objectAt_extends:
  assumes "take (length s) s' = s" "objectAt s a = Some ob"
  shows "objectAt s' a = Some ob"
proof -
  from assms(2) have a: "a < length s" "s ! a = ob"
    by (auto simp: objectAt_def split: if_splits)
  from assms(1) have "length s \<le> length s'"
    by (metis length_take min.cobounded1)
  moreover from assms(1) a(1) have "s' ! a = s ! a" by (metis nth_take)
  ultimately show ?thesis using a by (simp add: objectAt_def)
qed

lemma extends_trans:
  assumes "take (length s) s1 = s" "take (length s1) s' = s1"
  shows "take (length s) s' = s"
proof -
  from assms(1) have "length (take (length s) s1) = length s" by simp
  then have "length s \<le> length s1" by simp
  then have "take (length s) s' = take (length s) (take (length s1) s')"
    by (simp add: min_def)
  with assms show ?thesis by simp
qed
























section \<open>The remapper on the store computes the remapper on values\<close>

lemma tableReads_extends:
  "take (length s) s' = s \<Longrightarrow> tableReads s es t \<Longrightarrow> tableReads s' es t"
  unfolding tableReads_def
  by (erule list_all2_mono) (rule objectAt_extends)

lemma frameReads_iff:
  "frameReads s a f \<longleftrightarrow>
     (\<exists>fr entries.
        objectAt s a = Some (Frame fr) \<and>
        objectAt s (dimsAt fr) = Some (Dims (dims f)) \<and>
        delayOf fr = delay f \<and> disposalTypeOf fr = disposalType f \<and>
        objectAt s (patchAt fr) = Some (Patch (patch f)) \<and>
        objectAt s (pixelsAt fr) = Some (Pixels (pixels f)) \<and>
        transparentIndexOf fr = transparentIndex f \<and>
        objectAt s (colorTableAt fr) = Some (Table entries) \<and>
        tableReads s entries (colorTable f))"
proof (cases "objectAt s a")
  case None
  then show ?thesis by (simp add: frameReads_def)
next
  case (Some ob)
  show ?thesis
  proof (cases ob)
    case (Frame fr)
    show ?thesis
    proof (cases "objectAt s (colorTableAt fr)")
      case None
      with Some Frame show ?thesis by (simp add: frameReads_def)
    next
      case (Some ob2)
      with \<open>objectAt s a = Some ob\<close> Frame show ?thesis
        by (cases ob2) (simp_all add: frameReads_def)
    qed
  qed (simp_all add: Some frameReads_def)
qed

lemma frameReads_extends:
  assumes "take (length s) s' = s" "frameReads s a f"
  shows "frameReads s' a f"
proof -
  from assms(2) obtain fr entries where
    fr: "objectAt s a = Some (Frame fr)"
    "objectAt s (dimsAt fr) = Some (Dims (dims f))" "delayOf fr = delay f"
    "disposalTypeOf fr = disposalType f"
    "objectAt s (patchAt fr) = Some (Patch (patch f))"
    "objectAt s (pixelsAt fr) = Some (Pixels (pixels f))"
    "transparentIndexOf fr = transparentIndex f"
    "objectAt s (colorTableAt fr) = Some (Table entries)"
    "tableReads s entries (colorTable f)"
    unfolding frameReads_iff by blast
  note e = objectAt_extends [OF assms(1)]
  from e [OF fr(1)] e [OF fr(2)] e [OF fr(5)] e [OF fr(6)] e [OF fr(8)] fr(3,4,7)
    tableReads_extends [OF assms(1) fr(9)]
  show ?thesis unfolding frameReads_iff by blast
qed

lemma mappingsRead_extends:
  "take (length s) s' = s \<Longrightarrow> mappingsRead s mos ms \<Longrightarrow> mappingsRead s' mos ms"
  unfolding mappingsRead_def
  by (erule list_all2_mono) (auto intro: objectAt_extends)

lemma find_mappingsRead:
  assumes "mappingsRead s mos ms"
  shows "(find (\<lambda>m. originalColorOf m = k) mos = None \<and>
          find (\<lambda>m. originalColor m = k) ms = None) \<or>
         (\<exists>mo m. find (\<lambda>m. originalColorOf m = k) mos = Some mo \<and>
                  find (\<lambda>m. originalColor m = k) ms = Some m \<and>
                  objectAt s (newRgbAt mo) = Some (Triple (newRgb m)))"
  using assms unfolding mappingsRead_def
  by (induction mos ms rule: list_all2_induct) auto

lemma objectAt_update_other: "a \<noteq> b \<Longrightarrow> objectAt (s[b := ob]) a = objectAt s a"
  by (simp add: objectAt_def)

lemma objectAt_update_same: "b < length s \<Longrightarrow> objectAt (s[b := ob]) b = Some ob"
  by (simp add: objectAt_def)

lemma tableReads_nth:
  "tableReads s es t \<Longrightarrow> k < length es \<Longrightarrow> objectAt s (es ! k) = Some (Triple (t ! k))"
  unfolding tableReads_def by (rule list_all2_nthD)

lemma tableReads_length: "tableReads s es t \<Longrightarrow> length es = length t"
  by (simp add: tableReads_def list_all2_lengthD)

lemma tableReads_update_other:
  assumes "tableReads s es t" "\<And>c. objectAt s b \<noteq> Some (Triple c)"
  shows "tableReads (s[b := ob]) es t"
  using assms(1) unfolding tableReads_def
proof (rule list_all2_mono)
  fix e c assume e: "objectAt s e = Some (Triple c)"
  with assms(2) [of c] have "e \<noteq> b" by auto
  with e show "objectAt (s[b := ob]) e = Some (Triple c)" by (simp add: objectAt_update_other)
qed

lemma remapPixelStore_simulates:
  assumes ct: "objectAt s0 ct = Some (Table es)" and tr: "tableReads s0 es ctv"
    and nt: "objectAt s0 nt = Some (Table es0)" and ne: "ct \<noteq> nt"
    and mr: "mappingsRead s0 mos ms" and cur: "tableReads s0 es' t"
  shows "case remapPixel ctv ti ms p t of
           Inl e \<Rightarrow> remapPixelStore ct ti mos nt p (s0[nt := Table es']) =
                      (Some (Thrown e), s0[nt := Table es'])
         | Inr t' \<Rightarrow> \<exists>es''. remapPixelStore ct ti mos nt p (s0[nt := Table es']) =
                          (None, s0[nt := Table es'']) \<and> tableReads s0 es'' t'"
proof (cases "Some p = ti")
  case True
  with cur show ?thesis
    by (auto simp: remapPixel_def remapPixelStore_def)
next
  case False
  note notTransparent = this
  from nt have ntlt: "nt < length s0" by (auto simp: objectAt_def split: if_splits)
  have ct': "objectAt (s0[nt := Table es']) ct = Some (Table es)"
    using ct ne by (simp add: objectAt_update_other)
  have len: "length es = length ctv" using tr by (rule tableReads_length)
  show ?thesis
  proof (cases "p < length ctv")
    case False
    with notTransparent ct' len show ?thesis
      by (simp add: remapPixel_def remapPixelStore_def)
  next
    case True
    with len have plt: "p < length es" by simp
    from tableReads_nth [OF tr plt] have e0: "objectAt s0 (es ! p) = Some (Triple (ctv ! p))" .
    with nt have "es ! p \<noteq> nt" by auto
    with e0 have e: "objectAt (s0[nt := Table es']) (es ! p) = Some (Triple (ctv ! p))"
      by (simp add: objectAt_update_other)
    have n': "objectAt (s0[nt := Table es']) nt = Some (Table es')"
      using ntlt by (rule objectAt_update_same)
    from find_mappingsRead [OF mr, of "colorKeyOf (ctv ! p)"] show ?thesis
    proof
      assume "find (\<lambda>m. originalColorOf m = colorKeyOf (ctv ! p)) mos = None \<and>
          find (\<lambda>m. originalColor m = colorKeyOf (ctv ! p)) ms = None"
      with notTransparent True plt ct' e cur show ?thesis
        by (auto simp: remapPixel_def remapPixelStore_def Let_def)
    next
      assume "\<exists>mo m. find (\<lambda>m. originalColorOf m = colorKeyOf (ctv ! p)) mos = Some mo \<and>
          find (\<lambda>m. originalColor m = colorKeyOf (ctv ! p)) ms = Some m \<and>
          objectAt s0 (newRgbAt mo) = Some (Triple (newRgb m))"
      then obtain mo m where
        f: "find (\<lambda>m. originalColorOf m = colorKeyOf (ctv ! p)) mos = Some mo"
        "find (\<lambda>m. originalColor m = colorKeyOf (ctv ! p)) ms = Some m"
        "objectAt s0 (newRgbAt mo) = Some (Triple (newRgb m))" by blast
      have "tableReads s0 (es'[p := newRgbAt mo]) (t[p := newRgb m])"
        using cur f(3) unfolding tableReads_def by (rule list_all2_update_cong)
      with notTransparent True plt ct' e n' f(1,2) show ?thesis
        by (auto simp: remapPixel_def remapPixelStore_def Let_def)
    qed
  qed
qed

lemma forEach_remapPixelStore_simulates:
  assumes ct: "objectAt s0 ct = Some (Table es)" and tr: "tableReads s0 es ctv"
    and nt: "objectAt s0 nt = Some (Table es0)" and ne: "ct \<noteq> nt"
    and mr: "mappingsRead s0 mos ms"
  shows "tableReads s0 es' t \<Longrightarrow>
         (case forEach (remapPixel ctv ti ms) ps t of
            Inl e \<Rightarrow> fst (forEachStore (remapPixelStore ct ti mos nt) ps
                            (s0[nt := Table es'])) = Some (Thrown e)
          | Inr t' \<Rightarrow> \<exists>es''. forEachStore (remapPixelStore ct ti mos nt) ps
                            (s0[nt := Table es']) = (None, s0[nt := Table es'']) \<and>
                          tableReads s0 es'' t')"
proof (induction ps arbitrary: es' t)
  case Nil
  then show ?case by auto
next
  case (Cons p ps)
  note step = remapPixelStore_simulates [OF ct tr nt ne mr Cons.prems, of ti p]
  show ?case
  proof (cases "remapPixel ctv ti ms p t")
    case (Inl e)
    with step show ?thesis by simp
  next
    case (Inr t1)
    with step obtain es1 where
      s1: "remapPixelStore ct ti mos nt p (s0[nt := Table es']) = (None, s0[nt := Table es1])"
      "tableReads s0 es1 t1" by auto
    from Cons.IH [OF s1(2)] Inr s1(1) show ?thesis by (auto split: sum.splits)
  qed
qed

lemma forEachStore_fold:
  assumes "\<And>x b. f x (g b) = (None, g (h x b))"
  shows "forEachStore f xs (g b) = (None, g (fold h xs b))"
  by (induction xs arbitrary: b) (simp_all add: assms)

lemma writePixelStore_simulates:
  assumes px: "objectAt s0 pxAt = Some (Pixels px)" and nt: "objectAt s0 nt = Some (Table es)"
    and tr: "tableReads s0 es t" and np: "objectAt s0 np = Some (Patch bytes0)"
  shows "writePixelStore pxAt ti nt np i (s0[np := Patch bytes]) =
           (None, s0[np := Patch (writePixel px ti t i bytes)])"
proof -
  from np have nplt: "np < length s0" by (auto simp: objectAt_def split: if_splits)
  from px np have "pxAt \<noteq> np" by auto
  with px have px': "objectAt (s0[np := Patch bytes]) pxAt = Some (Pixels px)"
    by (simp add: objectAt_update_other)
  from nt np have "nt \<noteq> np" by auto
  with nt have nt': "objectAt (s0[np := Patch bytes]) nt = Some (Table es)"
    by (simp add: objectAt_update_other)
  have np': "objectAt (s0[np := Patch bytes]) np = Some (Patch bytes)"
    using nplt by (rule objectAt_update_same)
  have len: "length es = length t" using tr by (rule tableReads_length)
  show ?thesis
  proof (cases "px ! i < length es")
    case True
    from tableReads_nth [OF tr True] have e0: "objectAt s0 (es ! (px ! i)) = Some (Triple (t ! (px ! i)))" .
    with np have "es ! (px ! i) \<noteq> np" by auto
    with e0 have "objectAt (s0[np := Patch bytes]) (es ! (px ! i)) = Some (Triple (t ! (px ! i)))"
      by (simp add: objectAt_update_other)
    with px' nt' np' True len show ?thesis
      by (simp add: writePixelStore_def writePixel_def Let_def split: prod.splits)
  next
    case False
    with px' nt' np' len show ?thesis
      by (simp add: writePixelStore_def writePixel_def Let_def)
  qed
qed

lemma tableReads_restrict:
  assumes "tableReads (s @ [Table es0]) es t"
  shows "tableReads s es t"
  using assms unfolding tableReads_def
proof (rule list_all2_mono)
  fix e c assume "objectAt (s @ [Table es0]) e = Some (Triple c)"
  then show "objectAt s e = Some (Triple c)"
    by (auto simp: objectAt_def nth_append split: if_splits)
qed

lemma remapFrameStore_simulates:
  assumes fr: "frameReads s a f" and mr: "mappingsRead s mos ms"
  shows "case remapFrame ms f of
           Inl e \<Rightarrow> fst (remapFrameStore mos a s) = Inl (Thrown e)
         | Inr g \<Rightarrow> \<exists>b s'. remapFrameStore mos a s = (Inr b, s') \<and>
                      take (length s) s' = s \<and> frameReads s' b g"
proof -
  from fr obtain fo entries where
    o: "objectAt s a = Some (Frame fo)"
    "objectAt s (dimsAt fo) = Some (Dims (dims f))" "delayOf fo = delay f"
    "disposalTypeOf fo = disposalType f"
    "objectAt s (patchAt fo) = Some (Patch (patch f))"
    "objectAt s (pixelsAt fo) = Some (Pixels (pixels f))"
    "transparentIndexOf fo = transparentIndex f"
    "objectAt s (colorTableAt fo) = Some (Table entries)"
    "tableReads s entries (colorTable f)"
    unfolding frameReads_iff by blast
  define nt where "nt = length s"
  define s1 where "s1 = s @ [Table entries]"
  have t1: "take (length s) s1 = s" by (simp add: s1_def)
  note e1 = objectAt_extends [OF t1]
  have nt1: "objectAt s1 nt = Some (Table entries)"
    by (simp add: s1_def nt_def objectAt_def)
  from o(8) have "colorTableAt fo < length s" by (auto simp: objectAt_def split: if_splits)
  then have ne: "colorTableAt fo \<noteq> nt" by (simp add: nt_def)
  have id1: "s1[nt := Table entries] = s1"
    by (simp add: s1_def nt_def)
  note loop = forEach_remapPixelStore_simulates
    [OF e1 [OF o(8)] tableReads_extends [OF t1 o(9)] nt1 ne mappingsRead_extends [OF t1 mr]
      tableReads_extends [OF t1 o(9)], of "transparentIndex f" "pixels f"]
  have start: "remapFrameStore mos a s =
      (case forEachStore (remapPixelStore (colorTableAt fo) (transparentIndex f) mos nt)
              (pixels f) s1 of
         (Some e, s2) \<Rightarrow> (Inl e, s2)
       | (None, s2) \<Rightarrow>
           (case forEachStore (writePixelStore (pixelsAt fo) (transparentIndex f) nt (length s2))
                   [0..<length (pixels f)]
                   (s2 @ [Patch (replicate (length (pixels f) * 4) 0)]) of
              (Some e, s4) \<Rightarrow> (Inl e, s4)
            | (None, s4) \<Rightarrow>
                (Inr (length s4),
                 s4 @ [Frame (fo\<lparr>colorTableAt := nt, patchAt := length s2\<rparr>)])))"
    using o(1,6,7,8)
    by (simp add: remapFrameStore_def allocate_def Let_def nt_def s1_def
        split: prod.splits option.splits)
  show ?thesis
  proof (cases "remapColorTable f ms")
    case (Inl e)
    with loop have "fst (forEachStore
        (remapPixelStore (colorTableAt fo) (transparentIndex f) mos nt)
        (pixels f) s1) = Some (Thrown e)"
      by (simp add: remapColorTable_def id1)
    with Inl start show ?thesis
      by (auto simp: remapFrame_def split: prod.splits option.splits)
  next
    case (Inr t')
    with loop obtain es'' where
      l: "forEachStore (remapPixelStore (colorTableAt fo) (transparentIndex f) mos nt)
            (pixels f) s1 = (None, s1[nt := Table es''])"
      and tr1: "tableReads s1 es'' t'"
      by (auto simp: remapColorTable_def id1)
    define s2 where "s2 = s1[nt := Table es'']"
    define np where "np = length s2"
    define s3 where "s3 = s2 @ [Patch (replicate (length (pixels f) * 4) 0)]"
    define newPatch where
      "newPatch = regeneratePatch (pixels f) (transparentIndex f) t'"
    define s4 where "s4 = s3[np := Patch newPatch]"
    define fn where "fn = fo\<lparr>colorTableAt := nt, patchAt := np\<rparr>"
    define s' where "s' = s4 @ [Frame fn]"
    have len: "length s2 = length s + 1" "np = length s + 1" "length s3 = length s + 2"
      "length s4 = length s + 2"
      by (simp_all add: s2_def s1_def np_def s3_def s4_def)
    have t3: "take (length s) s3 = s"
      by (simp add: s3_def s2_def s1_def nt_def)
    note e3 = objectAt_extends [OF t3]
    have trs: "tableReads s es'' t'" using tr1 unfolding s1_def by (rule tableReads_restrict)
    have nt3: "objectAt s3 nt = Some (Table es'')"
      by (simp add: s3_def s2_def s1_def nt_def objectAt_def nth_append)
    have np3: "objectAt s3 np = Some (Patch (replicate (length (pixels f) * 4) 0))"
      by (simp add: s3_def np_def objectAt_def)
    have id3: "s3[np := Patch (replicate (length (pixels f) * 4) 0)] = s3"
      by (simp add: s3_def np_def)
    have "forEachStore (writePixelStore (pixelsAt fo) (transparentIndex f) nt np)
        [0..<length (pixels f)] (s3[np := Patch (replicate (length (pixels f) * 4) 0)]) =
        (None, s3[np := Patch (fold (writePixel (pixels f) (transparentIndex f) t')
               [0..<length (pixels f)] (replicate (length (pixels f) * 4) 0))])"
      by (rule forEachStore_fold)
        (rule writePixelStore_simulates [OF e3 [OF o(6)] nt3 tableReads_extends [OF t3 trs] np3])
    then have w: "forEachStore (writePixelStore (pixelsAt fo) (transparentIndex f) nt np)
        [0..<length (pixels f)] s3 = (None, s4)"
      by (simp add: id3 s4_def newPatch_def regeneratePatch_def Let_def)
    have res: "remapFrameStore mos a s = (Inr (length s4), s')"
      using start l w
      by (simp add: s2_def [symmetric] np_def [symmetric] s3_def [symmetric] fn_def s'_def)
    have t': "take (length s) s' = s"
      using t3 len by (simp add: s'_def s4_def)
    note e' = objectAt_extends [OF t']
    have b: "objectAt s' (length s4) = Some (Frame fn)"
      by (simp add: s'_def objectAt_def)
    have ntn: "objectAt s' nt = Some (Table es'')"
      using nt3 len by (simp add: s'_def s4_def objectAt_def nth_append nt_def split: if_splits)
    have npn: "objectAt s' np = Some (Patch newPatch)"
      using len by (simp add: s'_def s4_def objectAt_def nth_append)
    have "frameReads s' (length s4)
        (f\<lparr>colorTable := t', patch := regeneratePatch (pixels f) (transparentIndex f) t'\<rparr>)"
      unfolding frameReads_iff
      using b e' [OF o(2)] e' [OF o(6)] o(3,4,7) ntn npn tableReads_extends [OF t' trs]
      by (intro exI [of _ fn] exI [of _ es'']) (simp add: fn_def newPatch_def)
    with res t' Inr show ?thesis by (auto simp: remapFrame_def)
  qed
qed

lemma mapFramesStore_simulates:
  "list_all2 (frameReads s) refs fs \<Longrightarrow> mappingsRead s mos ms \<Longrightarrow>
   (case mapFrames (remapFrame ms) fs of
      Inl e \<Rightarrow> fst (mapFramesStore (remapFrameStore mos) refs s) = Inl (Thrown e)
    | Inr gs \<Rightarrow> \<exists>outs s'. mapFramesStore (remapFrameStore mos) refs s = (Inr outs, s') \<and>
                   take (length s) s' = s \<and> list_all2 (frameReads s') outs gs)"
proof (induction refs arbitrary: fs s)
  case Nil
  then show ?case by simp
next
  case (Cons a refs)
  from Cons.prems(1) obtain f fs' where
    fs: "fs = f # fs'" and f: "frameReads s a f" and rest: "list_all2 (frameReads s) refs fs'"
    by (auto simp: list_all2_Cons1)
  note head = remapFrameStore_simulates [OF f Cons.prems(2)]
  show ?case
  proof (cases "remapFrame ms f")
    case (Inl e)
    with head fs show ?thesis by (auto split: prod.splits sum.splits)
  next
    case (Inr g)
    with head obtain b s1 where
      b: "remapFrameStore mos a s = (Inr b, s1)" "take (length s) s1 = s" "frameReads s1 b g"
      by auto
    have rest1: "list_all2 (frameReads s1) refs fs'"
      using rest by (rule list_all2_mono) (rule frameReads_extends [OF b(2)])
    note tail = Cons.IH [OF rest1 mappingsRead_extends [OF b(2) Cons.prems(2)]]
    show ?thesis
    proof (cases "mapFrames (remapFrame ms) fs'")
      case (Inl e)
      with tail Inr b(1) fs show ?thesis by (auto split: prod.splits sum.splits)
    next
      case (Inr gs)
      with tail obtain outs s' where
        o: "mapFramesStore (remapFrameStore mos) refs s1 = (Inr outs, s')"
        "take (length s1) s' = s1" "list_all2 (frameReads s') outs gs" by auto
      from extends_trans [OF b(2) o(2)] frameReads_extends [OF o(2) b(3)] o(1,3) b(1)
        Inr \<open>remapFrame ms f = Inr g\<close> fs
      show ?thesis by simp
    qed
  qed
qed

theorem remapFramesColorsStore_refines:
  assumes "framesRead s originalFrames gifFrames" "mappingsRead s mappingObjects mappings"
  shows "case remapFramesColors gifFrames mappings of
           Inl e \<Rightarrow>
             fst (remapFramesColorsStore originalFrames mappingObjects s) = Inl (Thrown e)
         | Inr gs \<Rightarrow>
             \<exists>out s'. remapFramesColorsStore originalFrames mappingObjects s = (Inr out, s') \<and>
                      framesRead s' out gs"
proof -
  from assms(1) obtain refs where
    refs: "objectAt s originalFrames = Some (FrameList refs)"
    "list_all2 (frameReads s) refs gifFrames"
    by (auto simp: framesRead_def split: option.splits object.splits)
  from assms(2) have len: "length mappingObjects = length mappings"
    by (simp add: mappingsRead_def list_all2_lengthD)
  show ?thesis
  proof (cases "mappings = []")
    case True
    have t: "take (length s) (s @ [FrameList refs]) = s" by simp
    have "list_all2 (frameReads (s @ [FrameList refs])) refs gifFrames"
      using refs(2) by (rule list_all2_mono) (rule frameReads_extends [OF t])
    then have "framesRead (s @ [FrameList refs]) (length s) gifFrames"
      by (simp add: framesRead_def objectAt_def)
    with True len refs(1) show ?thesis
      by (simp add: remapFramesColors_def remapFramesColorsStore_def allocate_def)
  next
    case False
    with len have ne: "mappingObjects \<noteq> []" by auto
    note m = mapFramesStore_simulates [OF refs(2) assms(2)]
    show ?thesis
    proof (cases "mapFrames (remapFrame mappings) gifFrames")
      case (Inl e)
      with m False ne refs(1) show ?thesis
        by (auto simp: remapFramesColors_def remapFramesColorsStore_def
            split: prod.splits sum.splits)
    next
      case (Inr gs)
      with m obtain outs s1 where
        o: "mapFramesStore (remapFrameStore mappingObjects) refs s = (Inr outs, s1)"
        "list_all2 (frameReads s1) outs gs" by auto
      have t: "take (length s1) (s1 @ [FrameList outs]) = s1" by simp
      have "list_all2 (frameReads (s1 @ [FrameList outs])) outs gs"
        using o(2) by (rule list_all2_mono) (rule frameReads_extends [OF t])
      then have "framesRead (s1 @ [FrameList outs]) (length s1) gs"
        by (simp add: framesRead_def objectAt_def)
      with Inr o(1) False ne refs(1) show ?thesis
        by (simp add: remapFramesColors_def remapFramesColorsStore_def allocate_def)
    qed
  qed
qed

end
